theory Spec2Isabelle
  imports Main "HOL-Library.Word" "HOL-Library.Char_ord" "HOL-Library.List_Lexorder"
    "HOL-Library.AList" "HOL-Library.Multiset"
begin

unbundle bit_operations_syntax

section \<open>The shard and index registry of tsdb/store.go\<close>

text \<open>
  A shallow embedding of \<^verbatim>\<open>tsdb/store.go\<close>. Go's \<^verbatim>\<open>int\<close> is taken at its width
  on the 64-bit platforms the server is built for (a two's-complement \<open>64 word\<close>, compared
  signed), \<^verbatim>\<open>uint64\<close> shard ids are \<open>64 word\<close>, strings are byte lists, and a Go
  \<^verbatim>\<open>error\<close> result is an \<open>option\<close> whose \<open>None\<close> is \<^verbatim>\<open>nil\<close>.
\<close>

subsection \<open>Retryability of an error\<close>

text \<open>\<^verbatim>\<open>strings.HasPrefix\<close> and \<^verbatim>\<open>strings.Contains\<close> of the Go library, on byte lists.\<close>

fun HasPrefix :: "string \<Rightarrow> string \<Rightarrow> bool" where
  "HasPrefix s [] = True"
| "HasPrefix [] (p # ps) = False"
| "HasPrefix (c # cs) (p # ps) = (c = p \<and> HasPrefix cs ps)"

fun Contains :: "string \<Rightarrow> string \<Rightarrow> bool" where
  "Contains [] substr = (substr = [])"
| "Contains (c # cs) substr = (HasPrefix (c # cs) substr \<or> Contains cs substr)"

text \<open>
  \<^verbatim>\<open>IsRetryable\<close> observes its argument only through \<^verbatim>\<open>err.Error()\<close>: the
  argument is the message of the error, \<open>None\<close> for the \<^verbatim>\<open>nil\<close> error.
\<close>

definition IsRetryable :: "string option \<Rightarrow> bool" where
  "IsRetryable err =
     (case err of
        None \<Rightarrow> True
      | Some msg \<Rightarrow> if Contains msg ''field type conflict'' then False else True)"

subsection \<open>Pagination of SHOW SERIES results\<close>

type_synonym int64 = "64 word"

text \<open>A \<^verbatim>\<open>models.Row\<close>; a value of the row (one series) is of any type \<open>'v\<close>.\<close>

record 'v Row =
  Name :: string
  Columns :: "string list"
  Values :: "'v list"

text \<open>
  The inner loop over \<^verbatim>\<open>r.Values\<close>: it returns \<^verbatim>\<open>currentSeries\<close> and the
  advanced \<^verbatim>\<open>seriesCount\<close>.
\<close>

fun filterValues :: "int64 \<Rightarrow> int64 \<Rightarrow> int64 \<Rightarrow> 'v list \<Rightarrow> 'v list \<Rightarrow> 'v list \<times> int64" where
  "filterValues limit offset seriesCount currentSeries [] = (currentSeries, seriesCount)"
| "filterValues limit offset seriesCount currentSeries (v # vs) =
     filterValues limit offset (seriesCount + 1)
       (if offset \<le>s seriesCount \<and> seriesCount - offset <s limit
        then currentSeries @ [v] else currentSeries) vs"

text \<open>
  The outer loop over the rows, with its early return. The rows are pointers in Go and
  \<^verbatim>\<open>r.Values = currentSeries\<close> writes into the caller's row; the model returns the
  rows of the result.
\<close>

fun filterRows :: "int64 \<Rightarrow> int64 \<Rightarrow> int64 \<Rightarrow> 'v Row list \<Rightarrow> 'v Row list \<Rightarrow> 'v Row list" where
  "filterRows limit offset seriesCount filteredSeries [] = filteredSeries"
| "filterRows limit offset seriesCount filteredSeries (r # rows) =
     (case filterValues limit offset seriesCount [] (Values r) of
        (currentSeries, seriesCount') \<Rightarrow>
          if length currentSeries > 0
          then (if limit + offset <s seriesCount'
                then filteredSeries @ [r\<lparr>Values := currentSeries\<rparr>]
                else filterRows limit offset seriesCount'
                       (filteredSeries @ [r\<lparr>Values := currentSeries\<rparr>]) rows)
          else filterRows limit offset seriesCount' filteredSeries rows)"

definition filterShowSeriesResult :: "int64 \<Rightarrow> int64 \<Rightarrow> 'v Row list \<Rightarrow> 'v Row list" where
  "filterShowSeriesResult limit offset rows = filterRows limit offset 0 [] rows"

text \<open>
  The pagination law in the spec's words, over unbounded integers: the value at flattened
  position \<open>i\<close> is kept iff \<open>offset \<le> i < offset + limit\<close>, and a row left with no
  value is omitted. \<open>keepRange\<close> and \<open>paginate\<close> are this reference, to compare the
  code with; \<open>i\<close> is the flattened position of the first value of the list.
\<close>

fun keepRange :: "int \<Rightarrow> int \<Rightarrow> nat \<Rightarrow> 'v list \<Rightarrow> 'v list" where
  "keepRange lim off i [] = []"
| "keepRange lim off i (v # vs) =
     (if off \<le> int i \<and> int i < off + lim then [v] else []) @ keepRange lim off (Suc i) vs"

fun paginate :: "int \<Rightarrow> int \<Rightarrow> nat \<Rightarrow> 'v Row list \<Rightarrow> 'v Row list" where
  "paginate lim off i [] = []"
| "paginate lim off i (r # rs) =
     (if keepRange lim off i (Values r) = [] then []
      else [r\<lparr>Values := keepRange lim off i (Values r)\<rparr>])
       @ paginate lim off (i + length (Values r)) rs"

subsection \<open>Errors, Go maps and channels\<close>

text \<open>
  The errors the store returns. \<open>ErrMsg\<close> is an error made by \<^verbatim>\<open>errors.New\<close> or
  \<^verbatim>\<open>fmt.Errorf\<close> with that message, \<open>ErrIO\<close> an error handed up by the operating
  system or by a storage engine, and \<open>Panic\<close> a run-time panic, which ends the call.
\<close>

datatype error =
    ErrShardNotFound
  | ErrStoreClosed
  | ErrMeasurementNotFound string
  | ErrDatabaseNotFound string
  | ErrMsg string
  | ErrIO string
  | Panic string

text \<open>
  A Go map is an association list, or \<open>None\<close> for the \<^verbatim>\<open>nil\<close> map. Reading goes by
  \<open>map_of\<close>; \<^verbatim>\<open>range\<close> visits every key once, in an order Go leaves open (here the
  order of the list, which is arbitrary in every statement below); \<^verbatim>\<open>delete\<close> on a
  nil map does nothing, and assigning into a nil map panics (\<open>mstore\<close> returns \<open>None\<close>).
\<close>

type_synonym ('k, 'v) gomap = "('k \<times> 'v) list option"

definition mlookup :: "('k, 'v) gomap \<Rightarrow> 'k \<Rightarrow> 'v option" where
  "mlookup m k = (case m of None \<Rightarrow> None | Some al \<Rightarrow> map_of al k)"

definition mrange :: "('k, 'v) gomap \<Rightarrow> ('k \<times> 'v) list" where
  "mrange m = (case m of None \<Rightarrow> [] | Some al \<Rightarrow> AList.clearjunk al)"

definition mdelete :: "'k \<Rightarrow> ('k, 'v) gomap \<Rightarrow> ('k, 'v) gomap" where
  "mdelete k m = map_option (AList.delete k) m"

definition mstore :: "'k \<Rightarrow> 'v \<Rightarrow> ('k, 'v) gomap \<Rightarrow> ('k, 'v) gomap option" where
  "mstore k v m = (case m of None \<Rightarrow> None | Some al \<Rightarrow> Some (Some (AList.update k v al)))"

text \<open>
  The \<^verbatim>\<open>closing\<close> channel: nil before \<^verbatim>\<open>Open\<close>, then open, then closed by
  \<^verbatim>\<open>Close\<close>. A receive is ready on the closed channel only.
\<close>

datatype chan = NilChan | OpenChan | ClosedChan

subsection \<open>The index, the shards and the store\<close>

record Series =
  Key :: string

text \<open>A \<^verbatim>\<open>tsdb.Measurement\<close> of a database index, with the fields store.go reads.\<close>

record Measurement =
  MName :: string
  seriesIDs :: "64 word list"
  seriesByID :: "(64 word, Series) gomap"

record DatabaseIndex =
  name :: string
  measurements :: "(string, Measurement) gomap"

text \<open>
  A shard handle. Its engine is opaque (\<open>'e\<close>); \<open>sh_index\<close> is the name of the database
  index the shard was created with.
\<close>

record 'e Shard =
  sh_id :: "64 word"
  sh_index :: string
  sh_path :: string
  sh_walPath :: string
  sh_database :: string
  sh_retentionPolicy :: string
  sh_engine :: 'e

text \<open>
  An \<^verbatim>\<open>influxql.Measurement\<close>, a measurement reference of a FROM clause, and the
  \<^verbatim>\<open>influxql.Source\<close> interface: a measurement reference, a source of another kind
  (with the name \<^verbatim>\<open>%T\<close> prints for its type), or the nil interface.
\<close>

record 'r SourceMeasurement =
  Database :: string
  RetentionPolicy :: string
  MeasurementName :: string
  Regex :: "'r option"

datatype 'r Source =
    MeasurementSource "'r SourceMeasurement"
  | OtherSource string
  | NilSource

text \<open>
  What a call does to the world outside the registry, in order: every call into the
  operating system, a shard or an index is logged where it is made.
\<close>

datatype event =
    EvMkdirAll string
  | EvRemoveAll string
  | EvShardOpen "64 word"
  | EvShardClose "64 word"
  | EvShardWritePoints "64 word"
  | EvShardDeleteSeries "64 word" "string list"
  | EvShardDeleteMeasurement "64 word" string "string list"
  | EvIndexDropSeries string "string list"
  | EvIndexDropMeasurement string string

text \<open>
  The store (\<^verbatim>\<open>Store\<close>) together with what it acts on: \<open>WALDir\<close> is
  \<^verbatim>\<open>EngineOptions.Config.WALDir\<close>, \<open>disk\<close> lists the directories that exist, and
  \<open>trace\<close> is the log of events so far. The mutex and the loggers are left out: a call
  runs alone under the lock.
\<close>

record 'e Store =
  path :: string
  WALDir :: string
  databaseIndexes :: "(string, DatabaseIndex) gomap"
  shards :: "(64 word, 'e Shard) gomap"
  closing :: chan
  opened :: bool
  disk :: "string list"
  trace :: "event list"

text \<open>
  The collaborators of store.go that are not part of it: the Go library
  (\<^verbatim>\<open>filepath.Join\<close>, the directory tree, failures of \<^verbatim>\<open>os.MkdirAll\<close> and
  \<^verbatim>\<open>os.RemoveAll\<close>), the methods of a shard and its engine, of a database index and
  of the query language. They are parameters of every definition below.
  \<^item> \<open>Join\<close> is \<^verbatim>\<open>filepath.Join\<close>; \<open>ancestors p\<close> lists the directories above
    \<open>p\<close>.
  \<^item> \<open>MkdirAll_fails d p\<close> and \<open>RemoveAll_fails d p\<close> say whether the call on \<open>p\<close>
    fails when the disk holds \<open>d\<close>: \<open>None\<close> when it succeeds, else the error and the
    directories left on disk.
  \<^item> \<open>sh_Open\<close>, \<open>sh_Close\<close>, \<open>sh_WritePoints\<close>, \<open>sh_DeleteSeries\<close> and
    \<open>sh_DeleteMeasurement\<close> are the methods of a shard: each returns its error and the
    engine it leaves.
  \<^item> \<open>map_order\<close> is the order in which the run time ranges over a map with the given
    keys.
\<close>

record ('e, 'p, 'c, 'r) env =
  Join :: "string list \<Rightarrow> string"
  ancestors :: "string \<Rightarrow> string list"
  MkdirAll_fails :: "string list \<Rightarrow> string \<Rightarrow> (error \<times> string list) option"
  RemoveAll_fails :: "string list \<Rightarrow> string \<Rightarrow> (error \<times> string list) option"
  NewShard :: "64 word \<Rightarrow> string \<Rightarrow> string \<Rightarrow> string \<Rightarrow> 'e Shard"
  sh_Open :: "'e Shard \<Rightarrow> error option \<times> 'e"
  sh_Close :: "'e Shard \<Rightarrow> error option \<times> 'e"
  sh_WritePoints :: "'p list \<Rightarrow> 'e Shard \<Rightarrow> error option \<times> 'e"
  sh_DeleteSeries :: "string list \<Rightarrow> 'e Shard \<Rightarrow> error option \<times> 'e"
  sh_DeleteMeasurement :: "string \<Rightarrow> string list \<Rightarrow> 'e Shard \<Rightarrow> error option \<times> 'e"
  MeasurementsByRegex :: "DatabaseIndex \<Rightarrow> 'r \<Rightarrow> Measurement list"
  DropMeasurement :: "string \<Rightarrow> DatabaseIndex \<Rightarrow> DatabaseIndex"
  DropSeries :: "string list \<Rightarrow> DatabaseIndex \<Rightarrow> DatabaseIndex"
  String :: "'r SourceMeasurement \<Rightarrow> string"
  walkWhereForSeriesIds :: "Measurement \<Rightarrow> 'c \<Rightarrow> error + (64 word list \<times> (64 word \<times> 'c) list)"
  isBoolLiteralTrue :: "'c \<Rightarrow> bool"
  map_order :: "string list \<Rightarrow> string list"

subsection \<open>Helpers of the index and of the operating system\<close>

text \<open>
  Modelled from the spec: \<^verbatim>\<open>NewDatabaseIndex\<close> is not in store.go; the index it
  makes is created empty (``created at first \<^verbatim>\<open>CreateShard\<close> for a new database'').
\<close>

definition NewDatabaseIndex :: "string \<Rightarrow> DatabaseIndex" where
  "NewDatabaseIndex n = \<lparr>name = n, measurements = Some []\<rparr>"

text \<open>
  Modelled from the spec: \<^verbatim>\<open>DatabaseIndex.Measurement(name)\<close> is not in store.go; it
  answers membership, the measurement of that name in the index's mapping from
  measurement name to measurement, or nil.
\<close>

definition db_Measurement :: "DatabaseIndex \<Rightarrow> string \<Rightarrow> Measurement option" where
  "db_Measurement db n = mlookup (measurements db) n"

text \<open>
  Modelled from the spec: \<^verbatim>\<open>DatabaseIndex.Measurements()\<close> is not in store.go; it
  lists every measurement of the index, in the order of the map.
\<close>

definition db_Measurements :: "DatabaseIndex \<Rightarrow> Measurement list" where
  "db_Measurements db = map snd (mrange (measurements db))"

text \<open>
  Modelled from the spec: \<^verbatim>\<open>Measurement.HasSeries()\<close> is not in store.go; a
  measurement has series when its set of series is not empty.
\<close>

definition HasSeries :: "Measurement \<Rightarrow> bool" where
  "HasSeries m = (length (mrange (seriesByID m)) > 0)"

text \<open>
  Modelled from the spec: \<^verbatim>\<open>Measurement.SeriesKeys()\<close> is not in store.go; it gives
  the per-series key strings of the measurement.
\<close>

definition SeriesKeys :: "Measurement \<Rightarrow> string list" where
  "SeriesKeys m = map (\<lambda>(i, s). Key s) (mrange (seriesByID m))"

text \<open>
  Modelled from the spec: \<^verbatim>\<open>FilterExprs.DeleteBoolLiteralTrues()\<close> is not in
  store.go; it deletes the residual filters that are the boolean literal true, so that
  what is left are the predicates on fields.
\<close>

definition DeleteBoolLiteralTrues ::
  "('e, 'p, 'c, 'r) env \<Rightarrow> (64 word \<times> 'c) list \<Rightarrow> (64 word \<times> 'c) list" where
  "DeleteBoolLiteralTrues env filters = filter (\<lambda>(i, expr). \<not> isBoolLiteralTrue env expr) filters"

text \<open>
  \<^verbatim>\<open>os.MkdirAll\<close> creates the directory and the missing ones above it;
  \<^verbatim>\<open>os.RemoveAll\<close> removes the directory and all below it, and succeeds when there
  is nothing to remove. Both are logged and may fail as the environment says.
\<close>

definition removeTree :: "('e, 'p, 'c, 'r) env \<Rightarrow> string \<Rightarrow> string list \<Rightarrow> string list" where
  "removeTree env p d = filter (\<lambda>q. q \<noteq> p \<and> p \<notin> set (ancestors env q)) d"

definition MkdirAll :: "('e, 'p, 'c, 'r) env \<Rightarrow> string \<Rightarrow> 'e Store \<Rightarrow> error option \<times> 'e Store" where
  "MkdirAll env p s =
     (case MkdirAll_fails env (disk s) p of
        Some (e, left) \<Rightarrow> (Some e, s\<lparr>disk := left, trace := trace s @ [EvMkdirAll p]\<rparr>)
      | None \<Rightarrow>
          (None, s\<lparr>disk := List.union (disk s) (ancestors env p @ [p]),
                   trace := trace s @ [EvMkdirAll p]\<rparr>))"

definition RemoveAll :: "('e, 'p, 'c, 'r) env \<Rightarrow> string \<Rightarrow> 'e Store \<Rightarrow> error option \<times> 'e Store" where
  "RemoveAll env p s =
     (case RemoveAll_fails env (disk s) p of
        Some (e, left) \<Rightarrow> (Some e, s\<lparr>disk := left, trace := trace s @ [EvRemoveAll p]\<rparr>)
      | None \<Rightarrow>
          (None, s\<lparr>disk := removeTree env p (disk s), trace := trace s @ [EvRemoveAll p]\<rparr>))"

text \<open>\<^verbatim>\<open>strconv.FormatUint(id, 10)\<close>, which \<^verbatim>\<open>fmt.Sprintf("%d", id)\<close> equals.\<close>

fun digits :: "nat \<Rightarrow> nat \<Rightarrow> string" where
  "digits 0 n = []"
| "digits (Suc fuel) n =
     (if n < 10 then [char_of (48 + n)] else digits fuel (n div 10) @ [char_of (48 + n mod 10)])"

definition FormatUint :: "64 word \<Rightarrow> string" where
  "FormatUint i = digits 20 (unat i)"

subsection \<open>Creating, writing to and deleting shards\<close>

text \<open>
  A method of a shard acts on the engine behind the pointer the map holds: \<open>setEngine\<close>
  writes the engine the method left back into the shard of that id.
\<close>

definition setEngine :: "64 word \<Rightarrow> 'e Shard \<Rightarrow> 'e \<Rightarrow> 'e Store \<Rightarrow> 'e Store" where
  "setEngine shardID sh eng s =
     s\<lparr>shards := map_option (AList.update shardID (sh\<lparr>sh_engine := eng\<rparr>)) (shards s)\<rparr>"

definition logEvent :: "event \<Rightarrow> 'e Store \<Rightarrow> 'e Store" where
  "logEvent ev s = s\<lparr>trace := trace s @ [ev]\<rparr>"

definition CreateShard ::
  "('e, 'p, 'c, 'r) env \<Rightarrow> 'e Store \<Rightarrow> string \<Rightarrow> string \<Rightarrow> 64 word \<Rightarrow> error option \<times> 'e Store" where
  "CreateShard env s database retentionPolicy shardID =
     (if closing s = ClosedChan then (Some ErrStoreClosed, s)
      else if mlookup (shards s) shardID \<noteq> None then (None, s)
      else
        (case MkdirAll env (Join env [path s, database, retentionPolicy]) s of
           (Some err, s1) \<Rightarrow> (Some err, s1)
         | (None, s1) \<Rightarrow>
             let walPath = Join env [WALDir s1, database, retentionPolicy, FormatUint shardID] in
             (case MkdirAll env walPath s1 of
                (Some err, s2) \<Rightarrow> (Some err, s2)
              | (None, s2) \<Rightarrow>
                  (case (case mlookup (databaseIndexes s2) database of
                           Some db \<Rightarrow> Some s2
                         | None \<Rightarrow>
                             map_option (\<lambda>m. s2\<lparr>databaseIndexes := m\<rparr>)
                               (mstore database (NewDatabaseIndex database) (databaseIndexes s2))) of
                     None \<Rightarrow> (Some (Panic ''assignment to entry in nil map''), s2)
                   | Some s3 \<Rightarrow>
                       let shardPath = Join env [path s3, database, retentionPolicy, FormatUint shardID];
                           shard = NewShard env shardID database shardPath walPath
                       in (case sh_Open env shard of
                             (Some err, eng) \<Rightarrow> (Some err, logEvent (EvShardOpen shardID) s3)
                           | (None, eng) \<Rightarrow>
                               (case mstore shardID (shard\<lparr>sh_engine := eng\<rparr>) (shards s3) of
                                  None \<Rightarrow>
                                    (Some (Panic ''assignment to entry in nil map''),
                                     logEvent (EvShardOpen shardID) s3)
                                | Some m \<Rightarrow>
                                    (None, logEvent (EvShardOpen shardID) (s3\<lparr>shards := m\<rparr>))))))))"

definition deleteShard ::
  "('e, 'p, 'c, 'r) env \<Rightarrow> 'e Store \<Rightarrow> 64 word \<Rightarrow> error option \<times> 'e Store" where
  "deleteShard env s shardID =
     (case mlookup (shards s) shardID of
        None \<Rightarrow> (None, s)
      | Some sh \<Rightarrow>
          (case sh_Close env sh of
             (Some err, eng) \<Rightarrow> (Some err, logEvent (EvShardClose shardID) (setEngine shardID sh eng s))
           | (None, eng) \<Rightarrow>
               (case RemoveAll env (sh_path sh)
                       (logEvent (EvShardClose shardID) (setEngine shardID sh eng s)) of
                  (Some err, s1) \<Rightarrow> (Some err, s1)
                | (None, s1) \<Rightarrow>
                    (case RemoveAll env (sh_walPath sh) s1 of
                       (Some err, s2) \<Rightarrow> (Some err, s2)
                     | (None, s2) \<Rightarrow> (None, s2\<lparr>shards := mdelete shardID (shards s2)\<rparr>)))))"

definition DeleteShard ::
  "('e, 'p, 'c, 'r) env \<Rightarrow> 'e Store \<Rightarrow> 64 word \<Rightarrow> error option \<times> 'e Store" where
  "DeleteShard env s shardID = deleteShard env s shardID"

text \<open>
  The loop of \<^verbatim>\<open>DeleteDatabase\<close> over \<^verbatim>\<open>range s.shards\<close>. The body deletes only
  the entry it is visiting, so the entries still to visit are those of the map at the start.
\<close>

fun DeleteDatabase_loop ::
  "('e, 'p, 'c, 'r) env \<Rightarrow> string \<Rightarrow> 'e Store \<Rightarrow> (64 word \<times> 'e Shard) list \<Rightarrow> error option \<times> 'e Store" where
  "DeleteDatabase_loop env n s [] = (None, s)"
| "DeleteDatabase_loop env n s ((shardID, sh) # rest) =
     (if sh_database sh = n
      then (case deleteShard env s shardID of
              (Some err, s') \<Rightarrow> (Some err, s')
            | (None, s') \<Rightarrow> DeleteDatabase_loop env n s' rest)
      else DeleteDatabase_loop env n s rest)"

definition DeleteDatabase ::
  "('e, 'p, 'c, 'r) env \<Rightarrow> 'e Store \<Rightarrow> string \<Rightarrow> error option \<times> 'e Store" where
  "DeleteDatabase env s n =
     (case DeleteDatabase_loop env n s (mrange (shards s)) of
        (Some err, s1) \<Rightarrow> (Some err, s1)
      | (None, s1) \<Rightarrow>
          (case RemoveAll env (Join env [path s1, n]) s1 of
             (Some err, s2) \<Rightarrow> (Some err, s2)
           | (None, s2) \<Rightarrow>
               (case RemoveAll env (Join env [WALDir s2, n]) s2 of
                  (Some err, s3) \<Rightarrow> (Some err, s3)
                | (None, s3) \<Rightarrow>
                    (None, s3\<lparr>databaseIndexes := mdelete n (databaseIndexes s3)\<rparr>))))"

text \<open>The loop of \<^verbatim>\<open>DeleteMeasurement\<close> over the shards.\<close>

fun DeleteMeasurement_loop ::
  "('e, 'p, 'c, 'r) env \<Rightarrow> string \<Rightarrow> string \<Rightarrow> string list \<Rightarrow> 'e Store \<Rightarrow> (64 word \<times> 'e Shard) list
     \<Rightarrow> error option \<times> 'e Store" where
  "DeleteMeasurement_loop env database n keys s [] = (None, s)"
| "DeleteMeasurement_loop env database n keys s ((shardID, sh) # rest) =
     (if sh_database sh \<noteq> database then DeleteMeasurement_loop env database n keys s rest
      else (case sh_DeleteMeasurement env n keys sh of
              (Some err, eng) \<Rightarrow>
                (Some err, logEvent (EvShardDeleteMeasurement shardID n keys) (setEngine shardID sh eng s))
            | (None, eng) \<Rightarrow>
                DeleteMeasurement_loop env database n keys
                  (logEvent (EvShardDeleteMeasurement shardID n keys) (setEngine shardID sh eng s)) rest))"

definition DeleteMeasurement ::
  "('e, 'p, 'c, 'r) env \<Rightarrow> 'e Store \<Rightarrow> string \<Rightarrow> string \<Rightarrow> error option \<times> 'e Store" where
  "DeleteMeasurement env s database n =
     (case mlookup (databaseIndexes s) database of
        None \<Rightarrow> (None, s)
      | Some db \<Rightarrow>
          (case db_Measurement db n of
             None \<Rightarrow> (Some (ErrMeasurementNotFound n), s)
           | Some m \<Rightarrow>
               let s1 = logEvent (EvIndexDropMeasurement database (MName m))
                          (s\<lparr>databaseIndexes :=
                               map_option (AList.update database (DropMeasurement env (MName m) db))
                                 (databaseIndexes s)\<rparr>)
               in DeleteMeasurement_loop env database (MName m) (SeriesKeys m) s1 (mrange (shards s1))))"

definition WriteToShard ::
  "('e, 'p, 'c, 'r) env \<Rightarrow> 'e Store \<Rightarrow> 64 word \<Rightarrow> 'p list \<Rightarrow> error option \<times> 'e Store" where
  "WriteToShard env s shardID points =
     (if closing s = ClosedChan then (Some ErrStoreClosed, s)
      else (case mlookup (shards s) shardID of
              None \<Rightarrow> (Some ErrShardNotFound, s)
            | Some sh \<Rightarrow>
                (case sh_WritePoints env points sh of
                   (err, eng) \<Rightarrow> (err, logEvent (EvShardWritePoints shardID) (setEngine shardID sh eng s)))))"

text \<open>
  \<^verbatim>\<open>Close\<close>: closing the channel panics when it is nil or already closed; the loop
  stops at the first shard that fails to close, leaving the maps as they are.
\<close>

fun Close_loop ::
  "('e, 'p, 'c, 'r) env \<Rightarrow> 'e Store \<Rightarrow> (64 word \<times> 'e Shard) list \<Rightarrow> error option \<times> 'e Store" where
  "Close_loop env s [] = (None, s)"
| "Close_loop env s ((shardID, sh) # rest) =
     (case sh_Close env sh of
        (Some err, eng) \<Rightarrow> (Some err, logEvent (EvShardClose shardID) (setEngine shardID sh eng s))
      | (None, eng) \<Rightarrow> Close_loop env (logEvent (EvShardClose shardID) (setEngine shardID sh eng s)) rest)"

definition Close :: "('e, 'p, 'c, 'r) env \<Rightarrow> 'e Store \<Rightarrow> error option \<times> 'e Store" where
  "Close env s =
     (if opened s \<and> closing s = NilChan then (Some (Panic ''close of nil channel''), s)
      else if opened s \<and> closing s = ClosedChan then (Some (Panic ''close of closed channel''), s)
      else
        let s1 = (if opened s then s\<lparr>closing := ClosedChan\<rparr> else s) in
        (case Close_loop env s1 (mrange (shards s1)) of
           (Some err, s2) \<Rightarrow> (Some err, s2)
         | (None, s2) \<Rightarrow> (None, s2\<lparr>opened := False, shards := None, databaseIndexes := None\<rparr>)))"

subsection \<open>Expanding sources and deleting series\<close>

text \<open>
  The loop of \<^verbatim>\<open>expandSources\<close>. The local \<^verbatim>\<open>set\<close> is never nil, so it is a plain
  association list. The result is \<open>Inl\<close> for the error of an unsupported source,
  \<open>Inr None\<close> for the early \<^verbatim>\<open>return nil, nil\<close> on an unknown database, and
  \<open>Inr (Some set)\<close> when the loop runs to its end.
\<close>

definition addMatches ::
  "('e, 'p, 'c, 'r) env \<Rightarrow> 'r SourceMeasurement \<Rightarrow> Measurement list
     \<Rightarrow> (string \<times> 'r Source) list \<Rightarrow> (string \<times> 'r Source) list" where
  "addMatches env src ms set0 =
     foldl (\<lambda>st m.
              let other = \<lparr>Database = Database src, RetentionPolicy = RetentionPolicy src,
                           MeasurementName = MName m, Regex = None\<rparr>
              in AList.update (String env other) (MeasurementSource other) st) set0 ms"

fun expandSources_loop ::
  "('e, 'p, 'c, 'r) env \<Rightarrow> (string, DatabaseIndex) gomap \<Rightarrow> (string \<times> 'r Source) list
     \<Rightarrow> 'r Source list \<Rightarrow> error + (string \<times> 'r Source) list option" where
  "expandSources_loop env idx st [] = Inr (Some st)"
| "expandSources_loop env idx st (MeasurementSource src # rest) =
     (case Regex src of
        None \<Rightarrow> expandSources_loop env idx (AList.update (String env src) (MeasurementSource src) st) rest
      | Some re \<Rightarrow>
          (case mlookup idx (Database src) of
             None \<Rightarrow> Inr None
           | Some db \<Rightarrow>
               expandSources_loop env idx (addMatches env src (MeasurementsByRegex env db re) st) rest))"
| "expandSources_loop env idx st (OtherSource ty # rest) =
     Inl (ErrMsg (''expandSources: unsupported source type: '' @ ty))"
| "expandSources_loop env idx st (NilSource # rest) =
     Inl (ErrMsg ''expandSources: unsupported source type: <nil>'')"

text \<open>
  \<^verbatim>\<open>expandSources\<close>: the keys of the set in the order the run time ranges over them,
  sorted by \<^verbatim>\<open>sort.Strings\<close> (bytewise lexicographic), each looked up in the set again
  (a key that is not there reads as the nil source).
\<close>

definition expandSources ::
  "('e, 'p, 'c, 'r) env \<Rightarrow> 'e Store \<Rightarrow> 'r Source list \<Rightarrow> error + 'r Source list" where
  "expandSources env s sources =
     (case expandSources_loop env (databaseIndexes s) [] sources of
        Inl err \<Rightarrow> Inl err
      | Inr None \<Rightarrow> Inr []
      | Inr (Some st) \<Rightarrow>
          let names = sort (map_order env (map fst st))
          in Inr (map (\<lambda>n. case map_of st n of Some v \<Rightarrow> v | None \<Rightarrow> NilSource) names))"

definition ExpandSources ::
  "('e, 'p, 'c, 'r) env \<Rightarrow> 'e Store \<Rightarrow> 'r Source list \<Rightarrow> error + 'r Source list" where
  "ExpandSources env s sources = expandSources env s sources"

text \<open>
  \<^verbatim>\<open>measurementsFromSourcesOrDB\<close>; \<^verbatim>\<open>sort.Sort(measurements)\<close> orders by name.
\<close>

fun measurementsFromSources :: "DatabaseIndex \<Rightarrow> 'r Source list \<Rightarrow> error + Measurement list" where
  "measurementsFromSources db [] = Inr []"
| "measurementsFromSources db (MeasurementSource m # rest) =
     (case measurementsFromSources db rest of
        Inl err \<Rightarrow> Inl err
      | Inr ms \<Rightarrow>
          (case mlookup (measurements db) (MeasurementName m) of
             None \<Rightarrow> Inr ms
           | Some measurement \<Rightarrow> Inr (measurement # ms)))"
| "measurementsFromSources db (other # rest) =
     Inl (ErrMsg ''identifiers in FROM clause must be measurement names'')"

definition measurementsFromSourcesOrDB ::
  "DatabaseIndex \<Rightarrow> 'r Source list \<Rightarrow> error + Measurement list" where
  "measurementsFromSourcesOrDB db sources =
     (if length sources > 0
      then (case measurementsFromSources db sources of
              Inl err \<Rightarrow> Inl err
            | Inr ms \<Rightarrow> Inr (sort_key MName ms))
      else Inr (sort_key MName (filter HasSeries (db_Measurements db))))"

text \<open>
  The series keys of one measurement: the ids the condition selects (all of them when
  there is none; a filter on a field is refused), then the key of each id. Reading the key
  of an id the measurement does not hold dereferences nil.
\<close>

definition seriesIDsFor ::
  "('e, 'p, 'c, 'r) env \<Rightarrow> 'c option \<Rightarrow> Measurement \<Rightarrow> error + 64 word list" where
  "seriesIDsFor env condition m =
     (case condition of
        None \<Rightarrow> Inr (seriesIDs m)
      | Some cond \<Rightarrow>
          (case walkWhereForSeriesIds env m cond of
             Inl err \<Rightarrow> Inl err
           | Inr (ids, filters) \<Rightarrow>
               if length (DeleteBoolLiteralTrues env filters) > 0
               then Inl (ErrMsg (''DROP SERIES doesn'' @ [CHR 0x27] @ ''t support fields in WHERE clause''))
               else Inr ids))"

fun keysOfIDs :: "Measurement \<Rightarrow> string list \<Rightarrow> 64 word list \<Rightarrow> error + string list" where
  "keysOfIDs m seriesKeys [] = Inr seriesKeys"
| "keysOfIDs m seriesKeys (i # ids) =
     (case mlookup (seriesByID m) i of
        None \<Rightarrow> Inl (Panic ''invalid memory address or nil pointer dereference'')
      | Some series \<Rightarrow> keysOfIDs m (seriesKeys @ [Key series]) ids)"

fun collectSeriesKeys ::
  "('e, 'p, 'c, 'r) env \<Rightarrow> 'c option \<Rightarrow> string list \<Rightarrow> Measurement list \<Rightarrow> error + string list" where
  "collectSeriesKeys env condition seriesKeys [] = Inr seriesKeys"
| "collectSeriesKeys env condition seriesKeys (m # ms) =
     (case seriesIDsFor env condition m of
        Inl err \<Rightarrow> Inl err
      | Inr ids \<Rightarrow>
          (case keysOfIDs m seriesKeys ids of
             Inl err \<Rightarrow> Inl err
           | Inr seriesKeys' \<Rightarrow> collectSeriesKeys env condition seriesKeys' ms))"

text \<open>The loop of \<^verbatim>\<open>deleteSeries\<close> over the shards, and \<^verbatim>\<open>deleteSeries\<close>.\<close>

fun deleteSeries_loop ::
  "('e, 'p, 'c, 'r) env \<Rightarrow> string \<Rightarrow> string list \<Rightarrow> 'e Store \<Rightarrow> (64 word \<times> 'e Shard) list
     \<Rightarrow> error option \<times> 'e Store" where
  "deleteSeries_loop env database seriesKeys s [] = (None, s)"
| "deleteSeries_loop env database seriesKeys s ((shardID, sh) # rest) =
     (if sh_database sh \<noteq> database then deleteSeries_loop env database seriesKeys s rest
      else (case sh_DeleteSeries env seriesKeys sh of
              (Some err, eng) \<Rightarrow>
                (Some err, logEvent (EvShardDeleteSeries shardID seriesKeys) (setEngine shardID sh eng s))
            | (None, eng) \<Rightarrow>
                deleteSeries_loop env database seriesKeys
                  (logEvent (EvShardDeleteSeries shardID seriesKeys) (setEngine shardID sh eng s)) rest))"

definition deleteSeries ::
  "('e, 'p, 'c, 'r) env \<Rightarrow> 'e Store \<Rightarrow> string \<Rightarrow> string list \<Rightarrow> error option \<times> 'e Store" where
  "deleteSeries env s database seriesKeys =
     (case mlookup (databaseIndexes s) database of
        None \<Rightarrow> (Some (ErrDatabaseNotFound database), s)
      | Some db \<Rightarrow> deleteSeries_loop env database seriesKeys s (mrange (shards s)))"

text \<open>
  \<^verbatim>\<open>DeleteSeries\<close>; the condition is \<open>None\<close> for a nil \<^verbatim>\<open>influxql.Expr\<close>. The index
  that \<^verbatim>\<open>db\<close> points to is the one the map holds for the database.
\<close>

definition DeleteSeries ::
  "('e, 'p, 'c, 'r) env \<Rightarrow> 'e Store \<Rightarrow> string \<Rightarrow> 'r Source list \<Rightarrow> 'c option \<Rightarrow> error option \<times> 'e Store" where
  "DeleteSeries env s database sources condition =
     (case mlookup (databaseIndexes s) database of
        None \<Rightarrow> (None, s)
      | Some db \<Rightarrow>
          (case expandSources env s sources of
             Inl err \<Rightarrow> (Some err, s)
           | Inr a \<Rightarrow>
               if length sources \<noteq> 0 \<and> length a = 0 then (None, s)
               else
                 (case measurementsFromSourcesOrDB db a of
                    Inl err \<Rightarrow> (Some err, s)
                  | Inr ms \<Rightarrow>
                      (case collectSeriesKeys env condition [] ms of
                         Inl err \<Rightarrow> (Some err, s)
                       | Inr seriesKeys \<Rightarrow>
                           (case deleteSeries env s database seriesKeys of
                              (Some err, s1) \<Rightarrow> (Some err, s1)
                            | (None, s1) \<Rightarrow>
                                (None,
                                 logEvent (EvIndexDropSeries database seriesKeys)
                                   (s1\<lparr>databaseIndexes :=
                                         map_option (AList.update database (DropSeries env seriesKeys db))
                                           (databaseIndexes s1)\<rparr>)))))))"

subsection \<open>A sample environment and sample stores\<close>

text \<open>
  A concrete environment to run the definitions on: paths joined with a slash, an engine
  that is the list of the series keys it stores, an operating system and shards that never
  fail, and patterns of the form \<^verbatim>\<open>lit.*\<close>, which match a name containing
  \<^verbatim>\<open>lit\<close>. The canonical string of a measurement reference is its name here.
\<close>

fun joinSlash :: "string list \<Rightarrow> string" where
  "joinSlash [] = []"
| "joinSlash [x] = x"
| "joinSlash (x # y # ys) = x @ ''/'' @ joinSlash (y # ys)"

fun dirsAbove :: "string \<Rightarrow> string \<Rightarrow> string list" where
  "dirsAbove cur [] = []"
| "dirsAbove cur (c # cs) =
     (if c = CHR ''/'' \<and> cur \<noteq> [] then cur # dirsAbove (cur @ [c]) cs
      else dirsAbove (cur @ [c]) cs)"

definition sample_env :: "(string list, string, bool, string) env" where
  "sample_env =
     \<lparr>Join = joinSlash,
      ancestors = dirsAbove [],
      MkdirAll_fails = (\<lambda>d p. None),
      RemoveAll_fails = (\<lambda>d p. None),
      NewShard = (\<lambda>i idx p w.
         \<lparr>sh_id = i, sh_index = idx, sh_path = p, sh_walPath = w, sh_database = idx,
          sh_retentionPolicy = ''rp'', sh_engine = []\<rparr>),
      sh_Open = (\<lambda>sh. (None, sh_engine sh)),
      sh_Close = (\<lambda>sh. (None, sh_engine sh)),
      sh_WritePoints = (\<lambda>pts sh. (None, sh_engine sh @ pts)),
      sh_DeleteSeries = (\<lambda>keys sh. (None, filter (\<lambda>k. k \<notin> set keys) (sh_engine sh))),
      sh_DeleteMeasurement = (\<lambda>n keys sh. (None, filter (\<lambda>k. k \<notin> set keys) (sh_engine sh))),
      MeasurementsByRegex = (\<lambda>db re.
         filter (\<lambda>m. Contains (MName m) (takeWhile (\<lambda>c. c \<noteq> CHR ''.'') re)) (db_Measurements db)),
      DropMeasurement = (\<lambda>n db. db\<lparr>measurements := mdelete n (measurements db)\<rparr>),
      DropSeries = (\<lambda>keys db. db),
      String = MeasurementName,
      walkWhereForSeriesIds = (\<lambda>m cond. Inr (seriesIDs m, [])),
      isBoolLiteralTrue = (\<lambda>b. b),
      map_order = rev\<rparr>"

text \<open>The same environment, but shard 2 fails to delete series and to close.\<close>

definition failing_env :: "(string list, string, bool, string) env" where
  "failing_env =
     sample_env
       \<lparr>sh_Close := (\<lambda>sh. if sh_id sh = 2 then (Some (ErrIO ''close''), sh_engine sh)
                           else (None, sh_engine sh)),
        sh_DeleteSeries := (\<lambda>keys sh.
           if sh_id sh = 2 then (Some (ErrIO ''delete''), sh_engine sh)
           else (None, filter (\<lambda>k. k \<notin> set keys) (sh_engine sh)))\<rparr>"

definition sample_measurement :: "string \<Rightarrow> Measurement" where
  "sample_measurement n =
     \<lparr>MName = n, seriesIDs = [1], seriesByID = Some [(1, \<lparr>Key = n @ '',host=a''\<rparr>)]\<rparr>"

definition sample_index :: DatabaseIndex where
  "sample_index =
     \<lparr>name = ''db0'',
      measurements = Some [(''mem'', sample_measurement ''mem''),
                           (''cpu_load'', sample_measurement ''cpu_load''),
                           (''cpu'', sample_measurement ''cpu'')]\<rparr>"

definition sample_shard :: "64 word \<Rightarrow> string \<Rightarrow> string list Shard" where
  "sample_shard i db =
     \<lparr>sh_id = i, sh_index = db,
      sh_path = joinSlash [''/data'', db, ''rp'', FormatUint i],
      sh_walPath = joinSlash [''/wal'', db, ''rp'', FormatUint i],
      sh_database = db, sh_retentionPolicy = ''rp'',
      sh_engine = [''cpu,host=a'', ''mem,host=a'']\<rparr>"

text \<open>An opened store with the database \<^verbatim>\<open>db0\<close> on the shards 1 and 2 and another on shard 3.\<close>

definition sample_store :: "string list Store" where
  "sample_store =
     \<lparr>path = ''/data'', WALDir = ''/wal'',
      databaseIndexes = Some [(''db0'', sample_index), (''db1'', NewDatabaseIndex ''db1'')],
      shards = Some [(1, sample_shard 1 ''db0''), (3, sample_shard 3 ''db1''),
                     (2, sample_shard 2 ''db0'')],
      closing = OpenChan, opened = True,
      disk = [''/data'', ''/data/db0'', ''/data/db0/rp'', ''/data/db0/rp/1'', ''/data/db0/rp/2'',
              ''/data/db1'', ''/data/db1/rp'', ''/data/db1/rp/3'',
              ''/wal'', ''/wal/db0'', ''/wal/db0/rp'', ''/wal/db0/rp/1'', ''/wal/db0/rp/2'',
              ''/wal/db1'', ''/wal/db1/rp'', ''/wal/db1/rp/3''],
      trace = []\<rparr>"

text \<open>The series keys of the three sample measurements, in the order of their names.\<close>

definition sample_keys :: "string list" where
  "sample_keys = [''cpu,host=a'', ''cpu_load,host=a'', ''mem,host=a'']"

subsection \<open>Notions for the statements about source expansion\<close>

text \<open>
  The literal reference \<^verbatim>\<open>other\<close> that \<^verbatim>\<open>expandSources\<close> builds for a measurement
  matching a regex source; the literal references a source contributes to the set (itself
  when it is literal, the references of the matching measurements when it is a regex on a
  known database); the sources that are a regex on a database with no index; and the
  entries of the set for a set of references.
\<close>

definition otherOf :: "'r SourceMeasurement \<Rightarrow> Measurement \<Rightarrow> 'r SourceMeasurement" where
  "otherOf src m = \<lparr>Database = Database src, RetentionPolicy = RetentionPolicy src,
                     MeasurementName = MName m, Regex = None\<rparr>"

definition contrib ::
  "('e, 'p, 'c, 'r) env \<Rightarrow> (string, DatabaseIndex) gomap \<Rightarrow> 'r Source \<Rightarrow> 'r SourceMeasurement set" where
  "contrib env idx x =
     (case x of
        MeasurementSource src \<Rightarrow>
          (case Regex src of
             None \<Rightarrow> {src}
           | Some re \<Rightarrow>
               (case mlookup idx (Database src) of
                  None \<Rightarrow> {}
                | Some db \<Rightarrow> otherOf src ` set (MeasurementsByRegex env db re)))
      | _ \<Rightarrow> {})"

definition unknownDb :: "(string, DatabaseIndex) gomap \<Rightarrow> 'r Source \<Rightarrow> bool" where
  "unknownDb idx x =
     (case x of
        MeasurementSource src \<Rightarrow> Regex src \<noteq> None \<and> mlookup idx (Database src) = None
      | _ \<Rightarrow> False)"

definition pairsOf :: "('e, 'p, 'c, 'r) env \<Rightarrow> 'r SourceMeasurement set \<Rightarrow> (string \<times> 'r Source) set" where
  "pairsOf env M = (\<lambda>m. (String env m, MeasurementSource m)) ` M"

text \<open>
  The invariant of the set in \<^verbatim>\<open>expandSources\<close>: its keys are distinct, and each
  entry holds a literal measurement reference of \<open>A\<close> under its canonical string.
\<close>

definition literalSet ::
  "('e, 'p, 'c, 'r) env \<Rightarrow> 'r SourceMeasurement set \<Rightarrow> (string \<times> 'r Source) list \<Rightarrow> bool" where
  "literalSet env A st \<longleftrightarrow>
     distinct (map fst st)
     \<and> (\<forall>(k, v)\<in>set st. \<exists>m\<in>A. v = MeasurementSource m \<and> Regex m = None \<and> k = String env m)"

text \<open>
  The sample environment with the other iteration orders: the matches of a regex are
  listed in reverse and the keys of a map are ranged over in the order of insertion. And
  two sources: the literal measurement \<^verbatim>\<open>cpu\<close> and the pattern \<^verbatim>\<open>cpu.*\<close>.
\<close>

definition reordered_env :: "(string list, string, bool, string) env" where
  "reordered_env =
     sample_env\<lparr>MeasurementsByRegex := (\<lambda>db re. rev (MeasurementsByRegex sample_env db re)),
                map_order := (\<lambda>ks. ks)\<rparr>"

definition cpu_literal :: "string SourceMeasurement" where
  "cpu_literal = \<lparr>Database = ''db0'', RetentionPolicy = ''rp'', MeasurementName = ''cpu'', Regex = None\<rparr>"

definition cpu_pattern :: "string SourceMeasurement" where
  "cpu_pattern = \<lparr>Database = ''db0'', RetentionPolicy = ''rp'', MeasurementName = [],
                   Regex = Some ''cpu.*''\<rparr>"

section \<open>Properties\<close>

subsection \<open>IsRetryable\<close>

lemma HasPrefix_iff: "HasPrefix s p \<longleftrightarrow> (\<exists>b. s = p @ b)"
  by (induction s p rule: HasPrefix.induct) auto

lemma Contains_iff: "Contains s sub \<longleftrightarrow> (\<exists>a b. s = a @ sub @ b)"
proof (induction s)
  case Nil
  then show ?case by auto
next
  case (Cons c cs)
  show ?case
  proof
    assume "Contains (c # cs) sub"
    then consider "HasPrefix (c # cs) sub" | "Contains cs sub" by auto
    then show "\<exists>a b. c # cs = a @ sub @ b"
    proof cases
      case 1
      then obtain b where "c # cs = sub @ b" by (auto simp: HasPrefix_iff)
      then have "c # cs = [] @ sub @ b" by simp
      then show ?thesis by blast
    next
      case 2
      then obtain a b where "cs = a @ sub @ b" using Cons.IH by auto
      then have "c # cs = (c # a) @ sub @ b" by simp
      then show ?thesis by blast
    qed
  next
    assume "\<exists>a b. c # cs = a @ sub @ b"
    then obtain a b where ab: "c # cs = a @ sub @ b" by blast
    show "Contains (c # cs) sub"
    proof (cases a)
      case Nil
      with ab have "HasPrefix (c # cs) sub" by (auto simp: HasPrefix_iff)
      then show ?thesis by simp
    next
      case (Cons x a')
      with ab have "cs = a' @ sub @ b" by simp
      then have "Contains cs sub" using Cons.IH by blast
      then show ?thesis by simp
    qed
  qed
qed

text \<open>
  C10. \<^verbatim>\<open>IsRetryable(err)\<close> is false exactly when \<open>err\<close> is not nil and its message
  has \<^verbatim>\<open>field type conflict\<close> as a substring; the nil error is retryable.
\<close>

theorem IsRetryable_false_iff:
  "(IsRetryable err = False \<longleftrightarrow>
      (\<exists>msg. err = Some msg \<and> (\<exists>a b. msg = a @ ''field type conflict'' @ b)))
   \<and> IsRetryable None = True"
  by (cases err) (simp_all add: IsRetryable_def Contains_iff)

subsection \<open>Pagination\<close>

lemma sint_of_nat64: "c < 2 ^ 63 \<Longrightarrow> sint (of_nat c :: 64 word) = int c"
  by (simp add: signed_of_nat signed_take_bit_int_eq_self)

lemma sint_sub64:
  "- (2 ^ 63) \<le> sint a - sint b \<Longrightarrow> sint a - sint b < 2 ^ 63 \<Longrightarrow> sint (a - b :: 64 word) = sint a - sint b"
  by (simp add: sint_word_ariths signed_take_bit_int_eq_self)

lemma sint_add64:
  "- (2 ^ 63) \<le> sint a + sint b \<Longrightarrow> sint a + sint b < 2 ^ 63 \<Longrightarrow> sint (a + b :: 64 word) = sint a + sint b"
  by (simp add: sint_word_ariths signed_take_bit_int_eq_self)

lemma filterValues_keepRange:
  assumes "0 \<le> sint offset" "c + length vs < 2 ^ 63"
  shows "filterValues limit offset (of_nat c) cur vs =
           (cur @ keepRange (sint limit) (sint offset) c vs, of_nat (c + length vs))"
  using assms
proof (induction vs arbitrary: c cur)
  case Nil
  then show ?case by simp
next
  case (Cons v vs)
  have c: "c < 2 ^ 63" using Cons.prems by simp
  have sc: "sint (of_nat c :: 64 word) = int c" using c by (rule sint_of_nat64)
  have lo: "- (2 ^ 63) \<le> int c - sint offset"
    using sint_lt [of offset] by simp
  have hi: "int c - sint offset < 2 ^ 63"
    using Cons.prems(1) c by simp
  have sd: "sint (of_nat c - offset :: 64 word) = int c - sint offset"
    using sint_sub64 [of "of_nat c" offset] lo hi sc by simp
  have cond: "(offset \<le>s of_nat c \<and> of_nat c - offset <s limit) \<longleftrightarrow>
              (sint offset \<le> int c \<and> int c < sint offset + sint limit)"
    by (auto simp: word_sle_eq word_sless_alt sc sd)
  have nxt: "(of_nat c :: 64 word) + 1 = of_nat (Suc c)" by simp
  have ih: "\<And>cur. filterValues limit offset (of_nat (Suc c)) cur vs =
           (cur @ keepRange (sint limit) (sint offset) (Suc c) vs, of_nat (Suc c + length vs))"
    using Cons.IH [of "Suc c"] Cons.prems by simp
  show ?case
    unfolding filterValues.simps nxt ih using cond by (simp add: add.commute)
qed

lemma keepRange_past: "off + lim \<le> int i \<Longrightarrow> keepRange lim off i vs = []"
  by (induction vs arbitrary: i) auto

lemma paginate_past: "off + lim \<le> int i \<Longrightarrow> paginate lim off i rs = []"
  by (induction rs arbitrary: i) (auto simp: keepRange_past)

lemma filterRows_paginate:
  assumes "0 \<le> sint offset" "sint limit + sint offset < 2 ^ 63"
    "c + sum_list (map (\<lambda>r. length (Values r)) rows) < 2 ^ 63"
  shows "filterRows limit offset (of_nat c) acc rows =
           acc @ paginate (sint limit) (sint offset) c rows"
  using assms(3)
proof (induction rows arbitrary: c acc)
  case Nil
  then show ?case by simp
next
  case (Cons r rows)
  let ?n = "c + length (Values r)"
  have n: "?n < 2 ^ 63" using Cons.prems by simp
  have fv: "filterValues limit offset (of_nat c) [] (Values r) =
              (keepRange (sint limit) (sint offset) c (Values r), of_nat ?n)"
    using filterValues_keepRange [OF assms(1) n, of limit "[]"] by simp
  have sn: "sint (of_nat ?n :: 64 word) = int ?n" using n by (rule sint_of_nat64)
  have lo: "- (2 ^ 63) \<le> sint limit + sint offset"
    using sint_ge [of limit] assms(1) by simp
  have sa: "sint (limit + offset) = sint limit + sint offset"
    using sint_add64 [OF lo assms(2)] .
  have early: "(limit + offset <s of_nat ?n) \<longleftrightarrow> sint limit + sint offset < int ?n"
    by (simp only: word_sless_alt sa sn)
  have ih: "\<And>acc. filterRows limit offset (of_nat ?n) acc rows =
              acc @ paginate (sint limit) (sint offset) ?n rows"
    using Cons.IH [of ?n] Cons.prems by (simp add: add.assoc)
  show ?case
  proof (cases "keepRange (sint limit) (sint offset) c (Values r) = []")
    case True
    then show ?thesis by (simp add: fv ih del: of_nat_add)
  next
    case False
    show ?thesis
    proof (cases "sint limit + sint offset < int ?n")
      case True
      then have "paginate (sint limit) (sint offset) ?n rows = []"
        by (intro paginate_past) simp
      with False True show ?thesis using early by (simp add: fv del: of_nat_add)
    next
      case False
      with \<open>keepRange (sint limit) (sint offset) c (Values r) \<noteq> []\<close> show ?thesis
        using early by (simp add: fv ih del: of_nat_add)
    qed
  qed
qed

text \<open>
  Within the range of \<^verbatim>\<open>int\<close> the code computes the pagination law: for a
  non-negative offset, a sum \<open>limit + offset\<close> that does not overflow and fewer than
  \<open>2^63\<close> values.
\<close>

lemma filterShowSeriesResult_paginate:
  assumes "0 \<le> sint offset" "sint limit + sint offset < 2 ^ 63"
    "sum_list (map (\<lambda>r. length (Values r)) rows) < 2 ^ 63"
  shows "filterShowSeriesResult limit offset rows = paginate (sint limit) (sint offset) 0 rows"
  using filterRows_paginate [OF assms(1,2), of 0 rows "[]"] assms(3)
  by (simp add: filterShowSeriesResult_def)


text \<open>The example of the spec: limit 2 and offset 1 on the rows \<open>[a,b,c]\<close> and \<open>[d,e]\<close>.\<close>

lemma filterShowSeriesResult_example:
  "filterShowSeriesResult 2 1 [r1\<lparr>Values := [a, b, c]\<rparr>, r2\<lparr>Values := [d, e]\<rparr>]
     = [r1\<lparr>Values := [b, c]\<rparr>]"
  by (simp add: filterShowSeriesResult_def word_sle_eq word_sless_alt)

text \<open>
  C2. The general law fails where \<^verbatim>\<open>limit+offset\<close> overflows: with the largest
  limit \<open>2^63 - 1\<close> and offset 1 the sum wraps to the least integer, the early return
  fires after the first row that kept a value, and the value \<open>c\<close> at flattened position 2
  (which the law keeps, as \<open>1 \<le> 2 < 1 + limit\<close>) is dropped with its row.
\<close>

theorem filterShowSeriesResult_overflow:
  "filterShowSeriesResult 0x7FFFFFFFFFFFFFFF 1 [r1\<lparr>Values := [a, b]\<rparr>, r2\<lparr>Values := [c]\<rparr>]
     = [r1\<lparr>Values := [b]\<rparr>]
   \<and> paginate (sint (0x7FFFFFFFFFFFFFFF :: int64)) (sint (1 :: int64)) 0
         [r1\<lparr>Values := [a, b]\<rparr>, r2\<lparr>Values := [c]\<rparr>]
     = [r1\<lparr>Values := [b]\<rparr>, r2\<lparr>Values := [c]\<rparr>]"
  by (simp add: filterShowSeriesResult_def word_sle_eq word_sless_alt)

subsection \<open>DeleteMeasurement on an unknown measurement or database\<close>

text \<open>
  C5. \<^verbatim>\<open>DeleteMeasurement(database, name)\<close> on a database whose index has no
  measurement of that name returns the measurement-not-found error, and the store, the
  disk, the shards and their engines are as before (no index or shard method is called).
\<close>

theorem DeleteMeasurement_not_found:
  assumes "mlookup (databaseIndexes s) database = Some db" "db_Measurement db n = None"
  shows "DeleteMeasurement env s database n = (Some (ErrMeasurementNotFound n), s)"
  using assms by (simp add: DeleteMeasurement_def)

theorem DeleteMeasurement_not_found_witness:
  "mlookup (databaseIndexes sample_store) ''db0'' = Some sample_index
   \<and> db_Measurement sample_index ''disk'' = None
   \<and> DeleteMeasurement sample_env sample_store ''db0'' ''disk''
       = (Some (ErrMeasurementNotFound ''disk''), sample_store)"
proof -
  have a: "mlookup (databaseIndexes sample_store) ''db0'' = Some sample_index"
    by (simp add: sample_store_def mlookup_def)
  have b: "db_Measurement sample_index ''disk'' = None"
    by (simp add: sample_index_def db_Measurement_def mlookup_def)
  show ?thesis using a b DeleteMeasurement_not_found [OF a b, of sample_env] by simp
qed

text \<open>
  C6. \<^verbatim>\<open>DeleteMeasurement\<close> on a database with no index returns nil and changes
  nothing: the unknown database is a silent no-op, not the measurement-not-found error.
\<close>

theorem DeleteMeasurement_unknown_database:
  assumes "mlookup (databaseIndexes s) database = None"
  shows "DeleteMeasurement env s database n = (None, s)"
  using assms by (simp add: DeleteMeasurement_def)

theorem DeleteMeasurement_unknown_database_witness:
  "mlookup (databaseIndexes sample_store) ''nodb'' = None
   \<and> DeleteMeasurement sample_env sample_store ''nodb'' ''cpu'' = (None, sample_store)"
proof -
  have a: "mlookup (databaseIndexes sample_store) ''nodb'' = None"
    by (simp add: sample_store_def mlookup_def)
  show ?thesis using a DeleteMeasurement_unknown_database [OF a, of sample_env "''cpu''"] by simp
qed

subsection \<open>The closed store\<close>

text \<open>
  C7. Once the closing channel is closed, \<^verbatim>\<open>CreateShard\<close> and \<^verbatim>\<open>WriteToShard\<close>
  return \<^verbatim>\<open>ErrStoreClosed\<close> and leave the store, the disk and the trace as they
  were: no directory is made, no shard is built, opened or registered, no point is written.
\<close>

theorem closed_store_rejects:
  assumes "closing s = ClosedChan"
  shows "CreateShard env s database retentionPolicy shardID = (Some ErrStoreClosed, s)
       \<and> WriteToShard env s shardID' points = (Some ErrStoreClosed, s)"
  using assms by (simp add: CreateShard_def WriteToShard_def)

theorem closed_store_rejects_witness:
  "closing (sample_store\<lparr>closing := ClosedChan\<rparr>) = ClosedChan
   \<and> CreateShard sample_env (sample_store\<lparr>closing := ClosedChan\<rparr>) ''db2'' ''rp'' 7
        = (Some ErrStoreClosed, sample_store\<lparr>closing := ClosedChan\<rparr>)
   \<and> WriteToShard sample_env (sample_store\<lparr>closing := ClosedChan\<rparr>) 1 [''cpu,host=b'']
        = (Some ErrStoreClosed, sample_store\<lparr>closing := ClosedChan\<rparr>)"
  using closed_store_rejects [where s = "sample_store\<lparr>closing := ClosedChan\<rparr>" and env = sample_env
      and database = "''db2''" and retentionPolicy = "''rp''" and shardID = 7 and shardID' = 1]
  by simp

subsection \<open>CreateShard on a registered shard\<close>

lemma MkdirAll_keeps:
  assumes "MkdirAll env p s = (r, s1)"
  shows "closing s1 = closing s \<and> shards s1 = shards s \<and> databaseIndexes s1 = databaseIndexes s
       \<and> path s1 = path s \<and> WALDir s1 = WALDir s \<and> opened s1 = opened s"
  using assms by (auto simp: MkdirAll_def split: option.splits prod.splits)

lemma mlookup_mstore: "mstore k v m = Some m' \<Longrightarrow> mlookup m' k = Some v"
  by (auto simp: mstore_def mlookup_def update_conv' split: option.splits)

lemma CreateShard_success:
  assumes "CreateShard env s database rp shardID = (None, s')"
  shows "closing s' \<noteq> ClosedChan \<and> mlookup (shards s') shardID \<noteq> None"
proof (cases "closing s = ClosedChan")
  case True
  with assms show ?thesis by (simp add: CreateShard_def)
next
  case notclosed: False
  show ?thesis
  proof (cases "mlookup (shards s) shardID \<noteq> None")
    case True
    with assms notclosed show ?thesis by (simp add: CreateShard_def)
  next
    case False
    obtain r1 s1 where m1: "MkdirAll env (Join env [path s, database, rp]) s = (r1, s1)"
      by (cases "MkdirAll env (Join env [path s, database, rp]) s") 
    obtain r2 s2 where m2: "MkdirAll env (Join env [WALDir s1, database, rp, FormatUint shardID]) s1 = (r2, s2)"
      by (cases "MkdirAll env (Join env [WALDir s1, database, rp, FormatUint shardID]) s1")
    note k1 = MkdirAll_keeps [OF m1] and k2 = MkdirAll_keeps [OF m2]
    from assms notclosed False m1 m2 k1 k2 show ?thesis
      by (auto simp: CreateShard_def Let_def logEvent_def 
               split: option.splits prod.splits if_splits dest: mlookup_mstore)
  qed
qed

text \<open>
  C8, as amended. While the closing channel is not closed, \<^verbatim>\<open>CreateShard\<close> on a
  registered shard id returns nil at once, whatever the database and retention policy,
  and leaves the store, the disk and the trace as they were (no directory is made, no
  engine is opened); and after a call that returned nil, a second call with the same id
  returns nil and changes nothing, so two calls are as one.
\<close>

theorem CreateShard_idempotent:
  "(closing s \<noteq> ClosedChan \<and> mlookup (shards s) shardID \<noteq> None
      \<longrightarrow> CreateShard env s database retentionPolicy shardID = (None, s))
   \<and> (CreateShard env s database retentionPolicy shardID = (None, s')
      \<longrightarrow> CreateShard env s' database' retentionPolicy' shardID = (None, s'))"
proof (intro conjI impI)
  assume "closing s \<noteq> ClosedChan \<and> mlookup (shards s) shardID \<noteq> None"
  then show "CreateShard env s database retentionPolicy shardID = (None, s)"
    by (simp add: CreateShard_def)
next
  assume "CreateShard env s database retentionPolicy shardID = (None, s')"
  from CreateShard_success [OF this]
  show "CreateShard env s' database' retentionPolicy' shardID = (None, s')"
    by (simp add: CreateShard_def)
qed


text \<open>
  The claim as stated fails on a store that is closing: when \<^verbatim>\<open>Close\<close> stops at
  a shard that fails to close, the channel is closed and the shards stay registered, and
  \<^verbatim>\<open>CreateShard\<close> on a registered id then returns \<^verbatim>\<open>ErrStoreClosed\<close>, the test
  of the channel coming first.
\<close>

lemma Close_fails_sample: "fst (Close failing_env sample_store) = Some (ErrIO ''close'')"
  by code_simp
lemma Close_fails_keeps_shard: "mlookup (shards (snd (Close failing_env sample_store))) 1 \<noteq> None"
  by code_simp
lemma Close_fails_closing: "closing (snd (Close failing_env sample_store)) = ClosedChan"
  by code_simp

theorem CreateShard_registered_closing_counterexample:
  "fst (Close failing_env sample_store) = Some (ErrIO ''close'')
   \<and> mlookup (shards (snd (Close failing_env sample_store))) 1 \<noteq> None
   \<and> CreateShard failing_env (snd (Close failing_env sample_store)) ''db0'' ''rp'' 1
       = (Some ErrStoreClosed, snd (Close failing_env sample_store))"
proof -
  have "CreateShard failing_env (snd (Close failing_env sample_store)) ''db0'' ''rp'' 1
       = (Some ErrStoreClosed, snd (Close failing_env sample_store))"
    using Close_fails_closing by (simp add: CreateShard_def)
  with Close_fails_sample Close_fails_keeps_shard show ?thesis by simp
qed

lemma sample_store_open: "closing sample_store \<noteq> ClosedChan \<and> mlookup (shards sample_store) 1 \<noteq> None"
  by (simp add: sample_store_def mlookup_def)
lemma CreateShard_sample_7: "fst (CreateShard sample_env sample_store ''db2'' ''rp'' 7) = None"
  by code_simp

theorem CreateShard_idempotent_witness:
  "closing sample_store \<noteq> ClosedChan \<and> mlookup (shards sample_store) 1 \<noteq> None
   \<and> CreateShard sample_env sample_store ''db9'' ''rp9'' 1 = (None, sample_store)
   \<and> fst (CreateShard sample_env sample_store ''db2'' ''rp'' 7) = None
   \<and> CreateShard sample_env (snd (CreateShard sample_env sample_store ''db2'' ''rp'' 7)) ''db9'' ''rp9'' 7
       = (None, snd (CreateShard sample_env sample_store ''db2'' ''rp'' 7))"
proof -
  have e: "CreateShard sample_env sample_store ''db2'' ''rp'' 7
             = (None, snd (CreateShard sample_env sample_store ''db2'' ''rp'' 7))"
    using CreateShard_sample_7 by (cases "CreateShard sample_env sample_store ''db2'' ''rp'' 7") simp
  show ?thesis
    using sample_store_open CreateShard_sample_7 e
      CreateShard_idempotent [where s = sample_store and shardID = 1 and env = sample_env
        and database = "''db9''" and retentionPolicy = "''rp9''"]
      CreateShard_idempotent [where s = sample_store and shardID = 7 and env = sample_env
        and database = "''db2''" and retentionPolicy = "''rp''"
        and s' = "snd (CreateShard sample_env sample_store ''db2'' ''rp'' 7)"
        and database' = "''db9''" and retentionPolicy' = "''rp9''"]
    by simp
qed

subsection \<open>The unknown database in expandSources and DeleteSeries\<close>

lemma expandSources_loop_unknown_database:
  assumes "mlookup idx (Database src) = None" "Regex src = Some re"
    "\<forall>x\<in>set pre. \<exists>m. x = MeasurementSource m"
  shows "expandSources_loop env idx st (pre @ MeasurementSource src # rest) = Inr None"
  using assms(3)
proof (induction pre arbitrary: st)
  case Nil
  show ?case using assms(1,2) by simp
next
  case (Cons x pre)
  then obtain m where x: "x = MeasurementSource m" by auto
  have ih: "\<And>st. expandSources_loop env idx st (pre @ MeasurementSource src # rest) = Inr None"
    using Cons by simp
  show ?case unfolding x by (simp add: ih split: option.splits)
qed

text \<open>
  C4, as amended. (1) When the source list holds a regex measurement reference to a
  database with no index, and only measurement references stand before it,
  \<^verbatim>\<open>expandSources\<close> returns the empty list and no error. (2) \<^verbatim>\<open>DeleteSeries\<close>
  on a database with no index returns nil and leaves shards, indexes, disk and trace as
  they were.
\<close>

theorem unknown_database_no_op:
  "(mlookup (databaseIndexes s) (Database src) = None \<and> Regex src = Some re
      \<and> (\<forall>x\<in>set pre. \<exists>m. x = MeasurementSource m)
      \<longrightarrow> expandSources env s (pre @ MeasurementSource src # rest) = Inr [])
   \<and> (mlookup (databaseIndexes s) database = None
      \<longrightarrow> DeleteSeries env s database sources condition = (None, s))"
  by (simp add: expandSources_def expandSources_loop_unknown_database DeleteSeries_def)

text \<open>
  The first part as stated fails when a source of an unsupported kind (here the nil
  source) stands before the reference: the loop returns the unsupported-source error
  before it reaches the unknown database.
\<close>

theorem expandSources_unsupported_first_counterexample:
  "mlookup (databaseIndexes sample_store) ''nodb'' = None
   \<and> expandSources sample_env sample_store
        [NilSource,
         MeasurementSource \<lparr>Database = ''nodb'', RetentionPolicy = ''rp'', MeasurementName = [],
                             Regex = Some ''cpu.*''\<rparr>]
       = Inl (ErrMsg ''expandSources: unsupported source type: <nil>'')"
  by (simp add: expandSources_def sample_store_def mlookup_def)

theorem unknown_database_no_op_witness:
  "mlookup (databaseIndexes sample_store) ''nodb'' = None
   \<and> expandSources sample_env sample_store
        [MeasurementSource \<lparr>Database = ''db0'', RetentionPolicy = ''rp'', MeasurementName = ''cpu'',
                             Regex = None\<rparr>,
         MeasurementSource \<lparr>Database = ''nodb'', RetentionPolicy = ''rp'', MeasurementName = [],
                             Regex = Some ''cpu.*''\<rparr>,
         NilSource]
       = Inr []
   \<and> DeleteSeries sample_env sample_store ''nodb''
        [MeasurementSource \<lparr>Database = ''nodb'', RetentionPolicy = ''rp'', MeasurementName = ''cpu'',
                             Regex = None\<rparr>] None
       = (None, sample_store)"
proof -
  have a: "mlookup (databaseIndexes sample_store) ''nodb'' = None"
    by (simp add: sample_store_def mlookup_def)
  show ?thesis
    using a
      unknown_database_no_op [where s = sample_store and env = sample_env and database = "''nodb''"
        and src = "\<lparr>Database = ''nodb'', RetentionPolicy = ''rp'', MeasurementName = [],
                     Regex = Some ''cpu.*''\<rparr>"
        and re = "''cpu.*''"
        and pre = "[MeasurementSource \<lparr>Database = ''db0'', RetentionPolicy = ''rp'',
                      MeasurementName = ''cpu'', Regex = None\<rparr>]"
        and rest = "[NilSource]"
        and sources = "[MeasurementSource \<lparr>Database = ''nodb'', RetentionPolicy = ''rp'',
                      MeasurementName = ''cpu'', Regex = None\<rparr>]"
        and condition = None]
    by simp
qed

subsection \<open>Deleting a database\<close>

lemma RemoveAll_keeps:
  assumes "RemoveAll env p s = (r, s1)"
  shows "shards s1 = shards s \<and> databaseIndexes s1 = databaseIndexes s
       \<and> path s1 = path s \<and> WALDir s1 = WALDir s \<and> closing s1 = closing s"
  using assms by (auto simp: RemoveAll_def split: option.splits prod.splits)

lemma RemoveAll_success_disk:
  assumes "RemoveAll env p s = (None, s1)"
  shows "disk s1 = removeTree env p (disk s)"
  using assms by (auto simp: RemoveAll_def split: option.splits prod.splits)

lemma removeTree_removes: "p \<notin> set (removeTree env p d)"
  by (simp add: removeTree_def)

lemma removeTree_subset: "q \<notin> set d \<Longrightarrow> q \<notin> set (removeTree env p d)"
  by (simp add: removeTree_def)

lemma mlookup_mdelete: "mlookup (mdelete k m) k' = (if k' = k then None else mlookup m k')"
  by (cases m) (auto simp: mlookup_def mdelete_def delete_conv)

lemma mlookup_update:
  "mlookup (map_option (AList.update k v) m) k' = (if k' = k \<and> m \<noteq> None then Some v else mlookup m k')"
  by (cases m) (auto simp: mlookup_def update_conv')

lemma mrange_iff: "(k, v) \<in> set (mrange m) \<longleftrightarrow> mlookup m k = Some v"
proof (cases m)
  case None
  then show ?thesis by (simp add: mrange_def mlookup_def)
next
  case (Some al)
  have "set (AList.clearjunk al) = Map.graph (map_of al)" by (simp add: graph_map_of)
  then show ?thesis using Some by (simp add: mrange_def mlookup_def Map.graph_def)
qed

lemma deleteShard_success:
  assumes "deleteShard env s shardID = (None, s')"
  shows "(\<forall>k. mlookup (shards s') k = (if k = shardID then None else mlookup (shards s) k))
       \<and> databaseIndexes s' = databaseIndexes s \<and> path s' = path s \<and> WALDir s' = WALDir s"
proof (cases "mlookup (shards s) shardID")
  case None
  with assms show ?thesis by (auto simp: deleteShard_def)
next
  case (Some sh)
  obtain r0 eng where c: "sh_Close env sh = (r0, eng)" by (cases "sh_Close env sh")
  let ?s0 = "logEvent (EvShardClose shardID) (setEngine shardID sh eng s)"
  obtain r1 s1 where r1: "RemoveAll env (sh_path sh) ?s0 = (r1, s1)"
    by (cases "RemoveAll env (sh_path sh) ?s0")
  obtain r2 s2 where r2: "RemoveAll env (sh_walPath sh) s1 = (r2, s2)"
    by (cases "RemoveAll env (sh_walPath sh) s1")
  from assms Some c r1 r2 have ok: "r0 = None" "r1 = None" "r2 = None"
    and s': "s' = s2\<lparr>shards := mdelete shardID (shards s2)\<rparr>"
    by (auto simp: deleteShard_def split: option.splits)
  note k1 = RemoveAll_keeps [OF r1] and k2 = RemoveAll_keeps [OF r2]
  have s0: "shards ?s0 = map_option (AList.update shardID (sh\<lparr>sh_engine := eng\<rparr>)) (shards s)"
    "databaseIndexes ?s0 = databaseIndexes s" "path ?s0 = path s" "WALDir ?s0 = WALDir s"
    by (simp_all add: logEvent_def setEngine_def)
  show ?thesis
    using k1 k2 s0 by (simp add: s' mlookup_mdelete mlookup_update)
qed

lemma DeleteDatabase_loop_success:
  assumes "DeleteDatabase_loop env n s xs = (None, s')"
  shows "(\<forall>k. mlookup (shards s') k =
             (if k \<in> fst ` {x \<in> set xs. sh_database (snd x) = n} then None else mlookup (shards s) k))
       \<and> databaseIndexes s' = databaseIndexes s \<and> path s' = path s \<and> WALDir s' = WALDir s"
  using assms
proof (induction xs arbitrary: s)
  case Nil
  then show ?case by simp
next
  case (Cons x xs)
  obtain shardID sh where x: "x = (shardID, sh)" by (cases x)
  show ?case
  proof (cases "sh_database sh = n")
    case False
    with Cons.prems x have "DeleteDatabase_loop env n s xs = (None, s')" by simp
    from Cons.IH [OF this] False x show ?thesis by auto
  next
    case True
    obtain r1 s1 where d: "deleteShard env s shardID = (r1, s1)" by (cases "deleteShard env s shardID")
    with Cons.prems x True have r1: "r1 = None" and l: "DeleteDatabase_loop env n s1 xs = (None, s')"
      by (auto split: option.splits)
    note ds = deleteShard_success [OF d [unfolded r1]]
    note ih = Cons.IH [OF l]
    show ?thesis using ds ih True x by (auto simp: image_iff)
  qed
qed

lemma DeleteDatabase_loop_no_shard:
  assumes "\<forall>x\<in>set xs. sh_database (snd x) \<noteq> n"
  shows "DeleteDatabase_loop env n s xs = (None, s)"
  using assms by (induction xs) auto

text \<open>
  C9. When \<^verbatim>\<open>DeleteDatabase(name)\<close> returns nil, no shard of the map has the database
  \<open>name\<close>, the index map has no entry for it, and neither the data directory
  \<^verbatim>\<open><root>/<name>\<close> nor the write-ahead directory \<^verbatim>\<open><walRoot>/<name>\<close> is on
  disk. The call needs no shard of that database: with none, it returns nil whenever the
  two removals of the directories do not fail.
\<close>

theorem DeleteDatabase_complete:
  "(DeleteDatabase env s n = (None, s') \<longrightarrow>
      (\<forall>k sh. mlookup (shards s') k = Some sh \<longrightarrow> sh_database sh \<noteq> n)
      \<and> mlookup (databaseIndexes s') n = None
      \<and> Join env [path s, n] \<notin> set (disk s')
      \<and> Join env [WALDir s, n] \<notin> set (disk s'))
   \<and> ((\<forall>k sh. mlookup (shards s) k = Some sh \<longrightarrow> sh_database sh \<noteq> n)
        \<and> RemoveAll_fails env (disk s) (Join env [path s, n]) = None
        \<and> RemoveAll_fails env (removeTree env (Join env [path s, n]) (disk s))
              (Join env [WALDir s, n]) = None
      \<longrightarrow> fst (DeleteDatabase env s n) = None)"
proof (intro conjI impI)
  assume a: "DeleteDatabase env s n = (None, s')"
  obtain r1 s1 where l: "DeleteDatabase_loop env n s (mrange (shards s)) = (r1, s1)"
    by (cases "DeleteDatabase_loop env n s (mrange (shards s))")
  obtain r2 s2 where r2: "RemoveAll env (Join env [path s1, n]) s1 = (r2, s2)"
    by (cases "RemoveAll env (Join env [path s1, n]) s1")
  obtain r3 s3 where r3: "RemoveAll env (Join env [WALDir s2, n]) s2 = (r3, s3)"
    by (cases "RemoveAll env (Join env [WALDir s2, n]) s2")
  from a l r2 r3 have ok: "r1 = None" "r2 = None" "r3 = None"
    and s': "s' = s3\<lparr>databaseIndexes := mdelete n (databaseIndexes s3)\<rparr>"
    by (auto simp: DeleteDatabase_def split: option.splits)
  note ls = DeleteDatabase_loop_success [OF l [unfolded ok]]
  note k2 = RemoveAll_keeps [OF r2] and k3 = RemoveAll_keeps [OF r3]
  have sh: "shards s' = shards s1" using k2 k3 by (simp add: s')
  have "sh_database sh \<noteq> n" if look: "mlookup (shards s') k = Some sh" for k sh
  proof
    assume db: "sh_database sh = n"
    from look sh ls have notin: "k \<notin> fst ` {x \<in> set (mrange (shards s)). sh_database (snd x) = n}"
      and old: "mlookup (shards s) k = Some sh"
      by (auto split: if_splits)
    from old have "(k, sh) \<in> set (mrange (shards s))" by (simp add: mrange_iff)
    with db have "k \<in> fst ` {x \<in> set (mrange (shards s)). sh_database (snd x) = n}" by force
    with notin show False by contradiction
  qed
  then show "\<forall>k sh. mlookup (shards s') k = Some sh \<longrightarrow> sh_database sh \<noteq> n" by blast
  show "mlookup (databaseIndexes s') n = None" by (simp add: s' mlookup_mdelete)
  have p: "path s1 = path s" "WALDir s2 = WALDir s" using ls k2 by simp_all
  have d2: "disk s2 = removeTree env (Join env [path s, n]) (disk s1)"
    using RemoveAll_success_disk [OF r2 [unfolded ok]] p by simp
  have d3: "disk s3 = removeTree env (Join env [WALDir s, n]) (disk s2)"
    using RemoveAll_success_disk [OF r3 [unfolded ok]] p by simp
  have d': "disk s' = disk s3" by (simp add: s')
  show "Join env [path s, n] \<notin> set (disk s')"
    unfolding d' d3 d2 by (intro removeTree_subset removeTree_removes)
  show "Join env [WALDir s, n] \<notin> set (disk s')"
    unfolding d' d3 by (rule removeTree_removes)
next
  assume h: "(\<forall>k sh. mlookup (shards s) k = Some sh \<longrightarrow> sh_database sh \<noteq> n)
        \<and> RemoveAll_fails env (disk s) (Join env [path s, n]) = None
        \<and> RemoveAll_fails env (removeTree env (Join env [path s, n]) (disk s))
              (Join env [WALDir s, n]) = None"
  then have "\<forall>x\<in>set (mrange (shards s)). sh_database (snd x) \<noteq> n"
    by (fastforce simp: mrange_iff)
  then have l: "DeleteDatabase_loop env n s (mrange (shards s)) = (None, s)"
    by (rule DeleteDatabase_loop_no_shard)
  show "fst (DeleteDatabase env s n) = None"
    using h by (simp add: DeleteDatabase_def l RemoveAll_def)
qed


lemma DeleteDatabase_sample_db0: "fst (DeleteDatabase sample_env sample_store ''db0'') = None"
  by code_simp

lemma sample_store_no_db7:
  "\<forall>k sh. mlookup (shards sample_store) k = Some sh \<longrightarrow> sh_database sh \<noteq> ''db7''"
  by (auto simp: sample_store_def mlookup_def sample_shard_def split: if_splits)

lemma sample_paths:
  "Join sample_env [path sample_store, n] = ''/data/'' @ n"
  "Join sample_env [WALDir sample_store, n] = ''/wal/'' @ n"
  "RemoveAll_fails sample_env d p = None"
  by (simp_all add: sample_env_def sample_store_def)

theorem DeleteDatabase_complete_witness:
  "fst (DeleteDatabase sample_env sample_store ''db0'') = None
   \<and> \<not> (\<exists>k sh. mlookup (shards (snd (DeleteDatabase sample_env sample_store ''db0''))) k = Some sh
              \<and> sh_database sh = ''db0'')
   \<and> mlookup (databaseIndexes (snd (DeleteDatabase sample_env sample_store ''db0''))) ''db0'' = None
   \<and> ''/data/db0'' \<notin> set (disk (snd (DeleteDatabase sample_env sample_store ''db0'')))
   \<and> ''/wal/db0'' \<notin> set (disk (snd (DeleteDatabase sample_env sample_store ''db0'')))
   \<and> fst (DeleteDatabase sample_env sample_store ''db7'') = None"
proof -
  have e: "DeleteDatabase sample_env sample_store ''db0''
             = (None, snd (DeleteDatabase sample_env sample_store ''db0''))"
    using DeleteDatabase_sample_db0 by (cases "DeleteDatabase sample_env sample_store ''db0''") simp
  show ?thesis
    using e DeleteDatabase_sample_db0 sample_store_no_db7
      DeleteDatabase_complete [where env = sample_env and s = sample_store and n = "''db0''"
        and s' = "snd (DeleteDatabase sample_env sample_store ''db0'')"]
      DeleteDatabase_complete [where env = sample_env and s = sample_store and n = "''db7''"]
    by (simp add: sample_paths)
qed


subsection \<open>Deleting series: shards first, then the index\<close>

lemma setEngine_log_fields:
  "databaseIndexes (logEvent ev (setEngine i sh eng s)) = databaseIndexes s"
  "trace (logEvent ev (setEngine i sh eng s)) = trace s @ [ev]"
  "shards (logEvent ev (setEngine i sh eng s)) =
     map_option (AList.update i (sh\<lparr>sh_engine := eng\<rparr>)) (shards s)"
  "disk (logEvent ev (setEngine i sh eng s)) = disk s"
  by (simp_all add: logEvent_def setEngine_def)

lemma deleteSeries_loop_run:
  assumes "distinct (map fst xs)" "shards s \<noteq> None"
    "deleteSeries_loop env database seriesKeys s xs = (r, s')"
  shows "databaseIndexes s' = databaseIndexes s \<and> shards s' \<noteq> None
     \<and> (\<forall>k. k \<notin> fst ` set xs \<longrightarrow> mlookup (shards s') k = mlookup (shards s) k)
     \<and> ((r = None
          \<and> trace s' = trace s @ map (\<lambda>x. EvShardDeleteSeries (fst x) seriesKeys)
                                     (filter (\<lambda>x. sh_database (snd x) = database) xs)
          \<and> (\<forall>x\<in>set (filter (\<lambda>x. sh_database (snd x) = database) xs).
                fst (sh_DeleteSeries env seriesKeys (snd x)) = None
                \<and> mlookup (shards s') (fst x)
                    = Some ((snd x)\<lparr>sh_engine := snd (sh_DeleteSeries env seriesKeys (snd x))\<rparr>)))
       \<or> (\<exists>pre x post e.
            filter (\<lambda>x. sh_database (snd x) = database) xs = pre @ x # post
            \<and> r = Some e \<and> fst (sh_DeleteSeries env seriesKeys (snd x)) = Some e
            \<and> trace s' = trace s @ map (\<lambda>x. EvShardDeleteSeries (fst x) seriesKeys) (pre @ [x])
            \<and> (\<forall>y\<in>set pre.
                  fst (sh_DeleteSeries env seriesKeys (snd y)) = None
                  \<and> mlookup (shards s') (fst y)
                      = Some ((snd y)\<lparr>sh_engine := snd (sh_DeleteSeries env seriesKeys (snd y))\<rparr>))))"
  using assms
proof (induction xs arbitrary: s)
  case Nil
  then show ?case by simp
next
  case (Cons x xs)
  obtain i sh where x: "x = (i, sh)" by (cases x)
  have dist: "distinct (map fst xs)" and inotin: "i \<notin> fst ` set xs"
    using Cons.prems(1) x by auto
  show ?case
  proof (cases "sh_database sh = database")
    case False
    with Cons.prems(3) x have run: "deleteSeries_loop env database seriesKeys s xs = (r, s')" by simp
    from Cons.IH [OF dist Cons.prems(2) run] False x show ?thesis by simp
  next
    case True
    obtain r0 eng where d: "sh_DeleteSeries env seriesKeys sh = (r0, eng)"
      by (cases "sh_DeleteSeries env seriesKeys sh")
    let ?s1 = "logEvent (EvShardDeleteSeries i seriesKeys) (setEngine i sh eng s)"
    have s1: "databaseIndexes ?s1 = databaseIndexes s" "shards ?s1 \<noteq> None"
      "trace ?s1 = trace s @ [EvShardDeleteSeries i seriesKeys]"
      "mlookup (shards ?s1) i = Some (sh\<lparr>sh_engine := eng\<rparr>)"
      "\<And>k. k \<noteq> i \<Longrightarrow> mlookup (shards ?s1) k = mlookup (shards s) k"
      using Cons.prems(2) by (simp_all add: setEngine_log_fields mlookup_update)
    show ?thesis
    proof (cases r0)
      case (Some e)
      with Cons.prems(3) x True d have r: "r = Some e" and s': "s' = ?s1" by simp_all
      have "filter (\<lambda>x. sh_database (snd x) = database) (x # xs)
              = [] @ x # filter (\<lambda>x. sh_database (snd x) = database) xs"
        using True x by simp
      moreover have "fst (sh_DeleteSeries env seriesKeys (snd x)) = Some e"
        using d Some x by simp
      moreover have "trace s' = trace s @ map (\<lambda>x. EvShardDeleteSeries (fst x) seriesKeys) ([] @ [x])"
        using s1 s' x by simp
      ultimately have "\<exists>pre x' post e.
            filter (\<lambda>x. sh_database (snd x) = database) (x # xs) = pre @ x' # post
            \<and> r = Some e \<and> fst (sh_DeleteSeries env seriesKeys (snd x')) = Some e
            \<and> trace s' = trace s @ map (\<lambda>x. EvShardDeleteSeries (fst x) seriesKeys) (pre @ [x'])
            \<and> (\<forall>y\<in>set pre.
                  fst (sh_DeleteSeries env seriesKeys (snd y)) = None
                  \<and> mlookup (shards s') (fst y)
                      = Some ((snd y)\<lparr>sh_engine := snd (sh_DeleteSeries env seriesKeys (snd y))\<rparr>))"
        using r by (intro exI [of _ "[]"] exI [of _ x] exI [of _ "filter (\<lambda>x. sh_database (snd x) = database) xs"] exI [of _ e]) simp
      moreover have "databaseIndexes s' = databaseIndexes s" "shards s' \<noteq> None"
        "\<forall>k. k \<notin> fst ` set (x # xs) \<longrightarrow> mlookup (shards s') k = mlookup (shards s) k"
        using s1 s' x by auto
      ultimately show ?thesis by blast
    next
      case None
      with Cons.prems(3) x True d have run: "deleteSeries_loop env database seriesKeys ?s1 xs = (r, s')"
        by simp
      note ih = Cons.IH [OF dist s1(2) run]
      have keep: "mlookup (shards s') i = Some (sh\<lparr>sh_engine := eng\<rparr>)"
        using ih inotin s1(4) by simp
      have xok: "fst (sh_DeleteSeries env seriesKeys (snd x)) = None
                \<and> mlookup (shards s') (fst x)
                    = Some ((snd x)\<lparr>sh_engine := snd (sh_DeleteSeries env seriesKeys (snd x))\<rparr>)"
        using d None keep x by simp
      have base: "databaseIndexes s' = databaseIndexes s" "shards s' \<noteq> None"
        "\<forall>k. k \<notin> fst ` set (x # xs) \<longrightarrow> mlookup (shards s') k = mlookup (shards s) k"
        using ih s1 x by auto
      have fx: "filter (\<lambda>x. sh_database (snd x) = database) (x # xs)
              = x # filter (\<lambda>x. sh_database (snd x) = database) xs"
        using True x by simp
      from ih consider
        (ok) "r = None"
          "trace s' = trace ?s1 @ map (\<lambda>x. EvShardDeleteSeries (fst x) seriesKeys)
                                     (filter (\<lambda>x. sh_database (snd x) = database) xs)"
          "\<forall>x\<in>set (filter (\<lambda>x. sh_database (snd x) = database) xs).
                fst (sh_DeleteSeries env seriesKeys (snd x)) = None
                \<and> mlookup (shards s') (fst x)
                    = Some ((snd x)\<lparr>sh_engine := snd (sh_DeleteSeries env seriesKeys (snd x))\<rparr>)"
      | (fail) pre x' post e where
          "filter (\<lambda>x. sh_database (snd x) = database) xs = pre @ x' # post"
          "r = Some e" "fst (sh_DeleteSeries env seriesKeys (snd x')) = Some e"
          "trace s' = trace ?s1 @ map (\<lambda>x. EvShardDeleteSeries (fst x) seriesKeys) (pre @ [x'])"
          "\<forall>y\<in>set pre.
                  fst (sh_DeleteSeries env seriesKeys (snd y)) = None
                  \<and> mlookup (shards s') (fst y)
                      = Some ((snd y)\<lparr>sh_engine := snd (sh_DeleteSeries env seriesKeys (snd y))\<rparr>)"
        by blast
      then show ?thesis
      proof cases
        case ok
        have "trace s' = trace s @ map (\<lambda>x. EvShardDeleteSeries (fst x) seriesKeys)
                                     (filter (\<lambda>x. sh_database (snd x) = database) (x # xs))"
          using ok(2) s1(3) x True by simp
        moreover have "\<forall>y\<in>set (filter (\<lambda>x. sh_database (snd x) = database) (x # xs)).
                fst (sh_DeleteSeries env seriesKeys (snd y)) = None
                \<and> mlookup (shards s') (fst y)
                    = Some ((snd y)\<lparr>sh_engine := snd (sh_DeleteSeries env seriesKeys (snd y))\<rparr>)"
          unfolding fx using xok ok(3) by auto
        ultimately show ?thesis using base ok(1) by blast
      next
        case fail
        have a: "filter (\<lambda>x. sh_database (snd x) = database) (x # xs) = (x # pre) @ x' # post"
          using fail(1) fx by simp
        have b: "trace s' = trace s @ map (\<lambda>x. EvShardDeleteSeries (fst x) seriesKeys) ((x # pre) @ [x'])"
          using fail(4) s1(3) x by simp
        have c: "\<forall>y\<in>set (x # pre).
                  fst (sh_DeleteSeries env seriesKeys (snd y)) = None
                  \<and> mlookup (shards s') (fst y)
                      = Some ((snd y)\<lparr>sh_engine := snd (sh_DeleteSeries env seriesKeys (snd y))\<rparr>)"
          using xok fail(5) by auto
        from a b c fail(2,3) base show ?thesis by blast
      qed
    qed
  qed
qed


lemma mrange_distinct: "distinct (map fst (mrange m))"
  by (cases m) (simp_all add: mrange_def)

lemma DeleteSeries_steps:
  assumes "mlookup (databaseIndexes s) database = Some db"
    "DeleteSeries env s database sources condition = (r, s')"
  shows "s' = s
    \<or> (\<exists>keys r1 s1.
          deleteSeries_loop env database keys s (mrange (shards s)) = (r1, s1)
          \<and> ((\<exists>e. r1 = Some e \<and> r = Some e \<and> s' = s1)
             \<or> (r1 = None \<and> r = None
                 \<and> s' = logEvent (EvIndexDropSeries database keys)
                          (s1\<lparr>databaseIndexes :=
                                map_option (AList.update database (DropSeries env keys db))
                                  (databaseIndexes s1)\<rparr>))))"
  using assms
  by (auto simp: DeleteSeries_def deleteSeries_def split: sum.splits if_splits option.splits prod.splits)

text \<open>
  The three ways a call on a database with an index can end: before any shard or index is
  called, after the index drop, or at a failing shard.
\<close>

lemma DeleteSeries_outcomes:
  assumes "mlookup (databaseIndexes s) database = Some db"
    "DeleteSeries env s database sources condition = (r, s')"
  shows "s' = s
    \<or> (\<exists>keys.
          r = None
          \<and> trace s' = trace s @ map (\<lambda>x. EvShardDeleteSeries (fst x) keys)
                                     (filter (\<lambda>x. sh_database (snd x) = database) (mrange (shards s)))
                        @ [EvIndexDropSeries database keys]
          \<and> (\<forall>x\<in>set (filter (\<lambda>x. sh_database (snd x) = database) (mrange (shards s))).
                fst (sh_DeleteSeries env keys (snd x)) = None
                \<and> mlookup (shards s') (fst x)
                    = Some ((snd x)\<lparr>sh_engine := snd (sh_DeleteSeries env keys (snd x))\<rparr>))
          \<and> mlookup (databaseIndexes s') database = Some (DropSeries env keys db))
    \<or> (\<exists>keys pre x post e.
          filter (\<lambda>x. sh_database (snd x) = database) (mrange (shards s)) = pre @ x # post
          \<and> r = Some e \<and> fst (sh_DeleteSeries env keys (snd x)) = Some e
          \<and> trace s' = trace s @ map (\<lambda>x. EvShardDeleteSeries (fst x) keys) (pre @ [x])
          \<and> databaseIndexes s' = databaseIndexes s
          \<and> (\<forall>y\<in>set pre.
                fst (sh_DeleteSeries env keys (snd y)) = None
                \<and> mlookup (shards s') (fst y)
                    = Some ((snd y)\<lparr>sh_engine := snd (sh_DeleteSeries env keys (snd y))\<rparr>)))"
proof -
  let ?M = "filter (\<lambda>x. sh_database (snd x) = database) (mrange (shards s))"
  from DeleteSeries_steps [OF assms] consider (early) "s' = s"
    | (fails) keys s1 e where
        "deleteSeries_loop env database keys s (mrange (shards s)) = (Some e, s1)" "r = Some e" "s' = s1"
    | (drops) keys s1 where
        "deleteSeries_loop env database keys s (mrange (shards s)) = (None, s1)" "r = None"
        "s' = logEvent (EvIndexDropSeries database keys)
                (s1\<lparr>databaseIndexes :=
                      map_option (AList.update database (DropSeries env keys db)) (databaseIndexes s1)\<rparr>)"
    by blast
  then show ?thesis
  proof cases
    case early
    then show ?thesis by simp
  next
    case fails
    have ne: "shards s \<noteq> None"
    proof
      assume "shards s = None"
      then have "mrange (shards s) = []" by (simp add: mrange_def)
      with fails(1) show False by simp
    qed
    from deleteSeries_loop_run [OF mrange_distinct ne fails(1)] fails(2,3)
    show ?thesis by blast
  next
    case drops
    have idx: "databaseIndexes s \<noteq> None"
      using assms(1) by (cases "databaseIndexes s") (simp_all add: mlookup_def)
    have s': "trace s' = trace s1 @ [EvIndexDropSeries database keys]" "shards s' = shards s1"
      "databaseIndexes s' = map_option (AList.update database (DropSeries env keys db)) (databaseIndexes s1)"
      by (simp_all add: drops(3) logEvent_def)
    have run: "databaseIndexes s1 = databaseIndexes s
       \<and> trace s1 = trace s @ map (\<lambda>x. EvShardDeleteSeries (fst x) keys) ?M
       \<and> (\<forall>x\<in>set ?M.
                fst (sh_DeleteSeries env keys (snd x)) = None
                \<and> mlookup (shards s1) (fst x)
                    = Some ((snd x)\<lparr>sh_engine := snd (sh_DeleteSeries env keys (snd x))\<rparr>))"
    proof (cases "shards s")
      case None
      then have "mrange (shards s) = []" by (simp add: mrange_def)
      with drops(1) show ?thesis by simp
    next
      case (Some al)
      then have ne: "shards s \<noteq> None" by simp
      from deleteSeries_loop_run [OF mrange_distinct ne drops(1)] show ?thesis by auto
    qed
    have "mlookup (databaseIndexes s') database = Some (DropSeries env keys db)"
      using run idx by (simp add: s' mlookup_update)
    with run s' drops(2) show ?thesis by auto
  qed
qed


lemma sample_store_db0: "mlookup (databaseIndexes sample_store) ''db0'' = Some sample_index"
  by (simp add: sample_store_def mlookup_def)

lemma first_failure_unique:
  assumes "pre @ x # post = pre' @ x' # post'"
    "\<forall>y\<in>set pre. P y" "\<not> P x" "\<forall>y\<in>set pre'. P y" "\<not> P x'"
  shows "pre = pre' \<and> x = x'"
proof -
  have "takeWhile P (pre @ x # post) = pre" using assms(2,3) by (simp add: takeWhile_append2)
  moreover have "takeWhile P (pre' @ x' # post') = pre'" using assms(4,5) by (simp add: takeWhile_append2)
  ultimately have "pre = pre'" using assms(1) by simp
  with assms(1) show ?thesis by simp
qed

lemma DeleteSeries_reaches_shards:
  assumes "mlookup (databaseIndexes s) database = Some db"
    "expandSources env s sources = Inr a" "\<not> (length sources \<noteq> 0 \<and> length a = 0)"
    "measurementsFromSourcesOrDB db a = Inr ms" "collectSeriesKeys env condition [] ms = Inr keys"
    "DeleteSeries env s database sources condition = (r, s')"
  shows "\<exists>r1 s1. deleteSeries_loop env database keys s (mrange (shards s)) = (r1, s1)
          \<and> ((\<exists>e. r1 = Some e \<and> r = Some e \<and> s' = s1)
             \<or> (r1 = None \<and> r = None
                 \<and> s' = logEvent (EvIndexDropSeries database keys)
                          (s1\<lparr>databaseIndexes :=
                                map_option (AList.update database (DropSeries env keys db))
                                  (databaseIndexes s1)\<rparr>)))"
  using assms
  by (auto simp: DeleteSeries_def deleteSeries_def split: option.splits prod.splits)

lemma DeleteSeries_early:
  assumes "mlookup (databaseIndexes s) database = Some db"
    "\<not> (\<exists>a ms keys. expandSources env s sources = Inr a \<and> \<not> (length sources \<noteq> 0 \<and> length a = 0)
          \<and> measurementsFromSourcesOrDB db a = Inr ms
          \<and> collectSeriesKeys env condition [] ms = Inr keys)"
    "DeleteSeries env s database sources condition = (r, s')"
  shows "s' = s"
  using assms
  by (auto simp: DeleteSeries_def split: sum.splits if_splits)


lemma deleteSeries_loop_range:
  assumes "deleteSeries_loop env database keys s (mrange (shards s)) = (r1, s1)"
  shows "databaseIndexes s1 = databaseIndexes s
     \<and> ((r1 = None
          \<and> trace s1 = trace s @ map (\<lambda>x. EvShardDeleteSeries (fst x) keys)
                                     (filter (\<lambda>x. sh_database (snd x) = database) (mrange (shards s)))
          \<and> (\<forall>x\<in>set (filter (\<lambda>x. sh_database (snd x) = database) (mrange (shards s))).
                fst (sh_DeleteSeries env keys (snd x)) = None
                \<and> mlookup (shards s1) (fst x)
                    = Some ((snd x)\<lparr>sh_engine := snd (sh_DeleteSeries env keys (snd x))\<rparr>)))
       \<or> (\<exists>pre x post e.
            filter (\<lambda>x. sh_database (snd x) = database) (mrange (shards s)) = pre @ x # post
            \<and> r1 = Some e \<and> fst (sh_DeleteSeries env keys (snd x)) = Some e
            \<and> trace s1 = trace s @ map (\<lambda>x. EvShardDeleteSeries (fst x) keys) (pre @ [x])
            \<and> (\<forall>y\<in>set pre.
                  fst (sh_DeleteSeries env keys (snd y)) = None
                  \<and> mlookup (shards s1) (fst y)
                      = Some ((snd y)\<lparr>sh_engine := snd (sh_DeleteSeries env keys (snd y))\<rparr>))))"
proof (cases "shards s")
  case None
  then have "mrange (shards s) = []" by (simp add: mrange_def)
  with assms show ?thesis by simp
next
  case (Some al)
  then have ne: "shards s \<noteq> None" by simp
  from deleteSeries_loop_run [OF mrange_distinct ne assms] show ?thesis by blast
qed

text \<open>
  C1. Take a call of \<^verbatim>\<open>DeleteSeries\<close> on a database that has an index. When source
  expansion, measurement lookup and the walk of the condition produce the series keys, the
  call runs the engine-level deletion on the shards of the database, in the order of the
  range, and what follows is fixed by their results.
  If every such shard deletes without error, the call returns nil, and the events of the
  call are exactly one deletion per shard of the database followed, last, by the drop of
  the same keys from the index: each of these shards holds the engine its deletion left
  and the index of the database is the one \<^verbatim>\<open>DropSeries\<close> returned.
  If a shard is the first whose deletion fails, the call returns that shard's error; the
  events are exactly the deletions up to and including that shard, so no later shard is
  called and no index drop is made; the index map is as before; and each earlier shard
  holds the engine its deletion left (nothing is rolled back).
  When the keys are not produced (an error, or a non-empty source list that expands to
  nothing), the call changes nothing.
\<close>

theorem DeleteSeries_shards_before_index:
  assumes idx: "mlookup (databaseIndexes s) database = Some db"
    and run: "DeleteSeries env s database sources condition = (r, s')"
  shows
    "(\<forall>a ms keys.
        expandSources env s sources = Inr a \<and> \<not> (length sources \<noteq> 0 \<and> length a = 0)
        \<and> measurementsFromSourcesOrDB db a = Inr ms
        \<and> collectSeriesKeys env condition [] ms = Inr keys
        \<longrightarrow>
          ((\<forall>x\<in>set (filter (\<lambda>x. sh_database (snd x) = database) (mrange (shards s))).
               fst (sh_DeleteSeries env keys (snd x)) = None)
            \<longrightarrow> r = None
              \<and> trace s' = trace s @ map (\<lambda>x. EvShardDeleteSeries (fst x) keys)
                                        (filter (\<lambda>x. sh_database (snd x) = database) (mrange (shards s)))
                            @ [EvIndexDropSeries database keys]
              \<and> (\<forall>x\<in>set (filter (\<lambda>x. sh_database (snd x) = database) (mrange (shards s))).
                    mlookup (shards s') (fst x)
                      = Some ((snd x)\<lparr>sh_engine := snd (sh_DeleteSeries env keys (snd x))\<rparr>))
              \<and> mlookup (databaseIndexes s') database = Some (DropSeries env keys db))
          \<and> (\<forall>pre x post e.
                filter (\<lambda>x. sh_database (snd x) = database) (mrange (shards s)) = pre @ x # post
                \<and> (\<forall>y\<in>set pre. fst (sh_DeleteSeries env keys (snd y)) = None)
                \<and> fst (sh_DeleteSeries env keys (snd x)) = Some e
                \<longrightarrow> r = Some e
                  \<and> trace s' = trace s @ map (\<lambda>x. EvShardDeleteSeries (fst x) keys) (pre @ [x])
                  \<and> databaseIndexes s' = databaseIndexes s
                  \<and> (\<forall>y\<in>set pre.
                        mlookup (shards s') (fst y)
                          = Some ((snd y)\<lparr>sh_engine := snd (sh_DeleteSeries env keys (snd y))\<rparr>))))
     \<and> (\<not> (\<exists>a ms keys.
              expandSources env s sources = Inr a \<and> \<not> (length sources \<noteq> 0 \<and> length a = 0)
              \<and> measurementsFromSourcesOrDB db a = Inr ms
              \<and> collectSeriesKeys env condition [] ms = Inr keys)
         \<longrightarrow> s' = s)"
proof (intro conjI allI impI)
  fix a ms keys
  let ?M = "filter (\<lambda>x. sh_database (snd x) = database) (mrange (shards s))"
  let ?ok = "\<lambda>x. fst (sh_DeleteSeries env keys (snd x)) = None"
  assume pre: "expandSources env s sources = Inr a \<and> \<not> (length sources \<noteq> 0 \<and> length a = 0)
        \<and> measurementsFromSourcesOrDB db a = Inr ms
        \<and> collectSeriesKeys env condition [] ms = Inr keys"
  then have p: "expandSources env s sources = Inr a" "\<not> (length sources \<noteq> 0 \<and> length a = 0)"
    "measurementsFromSourcesOrDB db a = Inr ms" "collectSeriesKeys env condition [] ms = Inr keys"
    by simp_all
  from DeleteSeries_reaches_shards [OF idx p run] obtain r1 s1 where
    loop: "deleteSeries_loop env database keys s (mrange (shards s)) = (r1, s1)"
    and res: "(\<exists>e. r1 = Some e \<and> r = Some e \<and> s' = s1)
             \<or> (r1 = None \<and> r = None
                 \<and> s' = logEvent (EvIndexDropSeries database keys)
                          (s1\<lparr>databaseIndexes :=
                                map_option (AList.update database (DropSeries env keys db))
                                  (databaseIndexes s1)\<rparr>))"
    by blast
  note facts = deleteSeries_loop_range [OF loop]
  have idxne: "databaseIndexes s \<noteq> None"
    using idx by (cases "databaseIndexes s") (simp_all add: mlookup_def)
  {
    assume all: "\<forall>x\<in>set ?M. ?ok x"
    have r1: "r1 = None"
    proof (rule ccontr)
      assume "r1 \<noteq> None"
      with facts obtain pre x post e where "?M = pre @ x # post"
        "fst (sh_DeleteSeries env keys (snd x)) = Some e"
        by auto
      moreover then have "x \<in> set ?M" by simp
      ultimately show False using all by auto
    qed
    with res have r: "r = None"
      and s': "s' = logEvent (EvIndexDropSeries database keys)
                          (s1\<lparr>databaseIndexes :=
                                map_option (AList.update database (DropSeries env keys db))
                                  (databaseIndexes s1)\<rparr>)"
      by auto
    have f: "trace s' = trace s1 @ [EvIndexDropSeries database keys]" "shards s' = shards s1"
      "databaseIndexes s' = map_option (AList.update database (DropSeries env keys db)) (databaseIndexes s1)"
      by (simp_all add: s' logEvent_def)
    from facts r1 have g: "databaseIndexes s1 = databaseIndexes s"
      "trace s1 = trace s @ map (\<lambda>x. EvShardDeleteSeries (fst x) keys) ?M"
      "\<forall>x\<in>set ?M. mlookup (shards s1) (fst x)
                    = Some ((snd x)\<lparr>sh_engine := snd (sh_DeleteSeries env keys (snd x))\<rparr>)"
      by auto
    show "r = None" by (rule r)
    show "trace s' = trace s @ map (\<lambda>x. EvShardDeleteSeries (fst x) keys) ?M
                       @ [EvIndexDropSeries database keys]"
      using f g by simp
    show "\<forall>x\<in>set ?M. mlookup (shards s') (fst x)
                    = Some ((snd x)\<lparr>sh_engine := snd (sh_DeleteSeries env keys (snd x))\<rparr>)"
      using f g by simp
    show "mlookup (databaseIndexes s') database = Some (DropSeries env keys db)"
      using f g idxne by (simp add: mlookup_update)
  }
  {
    fix pre x post e
    assume h: "?M = pre @ x # post \<and> (\<forall>y\<in>set pre. ?ok y)
                \<and> fst (sh_DeleteSeries env keys (snd x)) = Some e"
    then have hx: "?M = pre @ x # post" "\<forall>y\<in>set pre. ?ok y"
      "fst (sh_DeleteSeries env keys (snd x)) = Some e"
      by simp_all
    have xin: "x \<in> set ?M" using hx(1) by simp
    have notok: "\<not> ?ok x" using hx(3) by simp
    from facts consider
        (allok) "\<forall>x\<in>set ?M. ?ok x \<and> mlookup (shards s1) (fst x)
                      = Some ((snd x)\<lparr>sh_engine := snd (sh_DeleteSeries env keys (snd x))\<rparr>)"
      | (fail) pre' x' post' e' where
          "?M = pre' @ x' # post'" "r1 = Some e'" "fst (sh_DeleteSeries env keys (snd x')) = Some e'"
          "trace s1 = trace s @ map (\<lambda>x. EvShardDeleteSeries (fst x) keys) (pre' @ [x'])"
          "\<forall>y\<in>set pre'. ?ok y \<and> mlookup (shards s1) (fst y)
                      = Some ((snd y)\<lparr>sh_engine := snd (sh_DeleteSeries env keys (snd y))\<rparr>)"
      by blast
    then obtain pre' x' post' e' where f:
      "?M = pre' @ x' # post'" "r1 = Some e'" "fst (sh_DeleteSeries env keys (snd x')) = Some e'"
      "trace s1 = trace s @ map (\<lambda>x. EvShardDeleteSeries (fst x) keys) (pre' @ [x'])"
      "\<forall>y\<in>set pre'. ?ok y \<and> mlookup (shards s1) (fst y)
                      = Some ((snd y)\<lparr>sh_engine := snd (sh_DeleteSeries env keys (snd y))\<rparr>)"
    proof cases
      case allok
      with xin have "?ok x" by blast
      with notok show ?thesis by contradiction
    next
      case fail
      then show ?thesis by (rule that)
    qed
    have "pre @ x # post = pre' @ x' # post'" using hx(1) f(1) by simp
    moreover have "\<forall>y\<in>set pre'. ?ok y" "\<not> ?ok x'" using f(3,5) by simp_all
    ultimately have same: "pre = pre' \<and> x = x'"
      using hx(2) notok by (intro first_failure_unique [where P = ?ok])
    then have e: "e' = e" using f(3) hx(3) by simp
    from res f(2) have s': "s' = s1" and r: "r = Some e'" by auto
    show "r = Some e" using r e by simp
    show "trace s' = trace s @ map (\<lambda>x. EvShardDeleteSeries (fst x) keys) (pre @ [x])"
      using f(4) same s' by simp
    show "databaseIndexes s' = databaseIndexes s" using facts s' by simp
    show "\<forall>y\<in>set pre. mlookup (shards s') (fst y)
                      = Some ((snd y)\<lparr>sh_engine := snd (sh_DeleteSeries env keys (snd y))\<rparr>)"
      using f(5) same s' by simp
  }
next
  assume "\<not> (\<exists>a ms keys.
              expandSources env s sources = Inr a \<and> \<not> (length sources \<noteq> 0 \<and> length a = 0)
              \<and> measurementsFromSourcesOrDB db a = Inr ms
              \<and> collectSeriesKeys env condition [] ms = Inr keys)"
  from DeleteSeries_early [OF idx this run] show "s' = s" .
qed


lemma sample_prelude:
  "expandSources sample_env sample_store [] = Inr []"
  "expandSources failing_env sample_store [] = Inr []"
  "measurementsFromSourcesOrDB sample_index ([] :: string Source list)
     = Inr (sort_key MName (filter HasSeries (db_Measurements sample_index)))"
  "collectSeriesKeys sample_env None [] (sort_key MName (filter HasSeries (db_Measurements sample_index)))
     = Inr sample_keys"
  "collectSeriesKeys failing_env None [] (sort_key MName (filter HasSeries (db_Measurements sample_index)))
     = Inr sample_keys"
  by code_simp+

lemma sample_db0_shards:
  "filter (\<lambda>x. sh_database (snd x) = ''db0'') (mrange (shards sample_store))
     = [(1, sample_shard 1 ''db0''), (2, sample_shard 2 ''db0'')]"
  by code_simp

lemma sample_shard_deletes:
  "fst (sh_DeleteSeries sample_env ks (sample_shard i db)) = None"
  "fst (sh_DeleteSeries failing_env ks (sample_shard 1 db)) = None"
  "fst (sh_DeleteSeries failing_env ks (sample_shard 2 db)) = Some (ErrIO ''delete'')"
  by (simp_all add: sample_env_def failing_env_def sample_shard_def)

lemma sample_trace_empty: "trace sample_store = []"
  by (simp add: sample_store_def)

theorem DeleteSeries_shards_before_index_witness:
  "mlookup (databaseIndexes sample_store) ''db0'' = Some sample_index
   \<and> fst (DeleteSeries sample_env sample_store ''db0'' [] None) = None
   \<and> trace (snd (DeleteSeries sample_env sample_store ''db0'' [] None))
       = [EvShardDeleteSeries 1 sample_keys, EvShardDeleteSeries 2 sample_keys,
          EvIndexDropSeries ''db0'' sample_keys]
   \<and> mlookup (databaseIndexes (snd (DeleteSeries sample_env sample_store ''db0'' [] None))) ''db0''
       = Some (DropSeries sample_env sample_keys sample_index)
   \<and> fst (DeleteSeries failing_env sample_store ''db0'' [] None) = Some (ErrIO ''delete'')
   \<and> trace (snd (DeleteSeries failing_env sample_store ''db0'' [] None))
       = [EvShardDeleteSeries 1 sample_keys, EvShardDeleteSeries 2 sample_keys]
   \<and> databaseIndexes (snd (DeleteSeries failing_env sample_store ''db0'' [] None))
       = databaseIndexes sample_store"
proof -
  let ?ok = "DeleteSeries sample_env sample_store ''db0'' [] None"
  let ?ko = "DeleteSeries failing_env sample_store ''db0'' [] None"
  let ?ms = "sort_key MName (filter HasSeries (db_Measurements sample_index))"
  have run_ok: "?ok = (fst ?ok, snd ?ok)" and run_ko: "?ko = (fst ?ko, snd ?ko)" by simp_all
  have pre_ok: "expandSources sample_env sample_store [] = Inr []
        \<and> \<not> (length ([] :: string Source list) \<noteq> 0 \<and> length ([] :: string Source list) = 0)
        \<and> measurementsFromSourcesOrDB sample_index ([] :: string Source list) = Inr ?ms
        \<and> collectSeriesKeys sample_env None [] ?ms = Inr sample_keys"
    using sample_prelude by simp
  have pre_ko: "expandSources failing_env sample_store [] = Inr []
        \<and> \<not> (length ([] :: string Source list) \<noteq> 0 \<and> length ([] :: string Source list) = 0)
        \<and> measurementsFromSourcesOrDB sample_index ([] :: string Source list) = Inr ?ms
        \<and> collectSeriesKeys failing_env None [] ?ms = Inr sample_keys"
    using sample_prelude by simp
  have all_ok: "\<forall>x\<in>set (filter (\<lambda>x. sh_database (snd x) = ''db0'') (mrange (shards sample_store))).
                  fst (sh_DeleteSeries sample_env sample_keys (snd x)) = None"
    by (simp add: sample_db0_shards sample_shard_deletes)
  have fails: "filter (\<lambda>x. sh_database (snd x) = ''db0'') (mrange (shards sample_store))
                 = [(1, sample_shard 1 ''db0'')] @ (2, sample_shard 2 ''db0'') # []
               \<and> (\<forall>y\<in>set [(1 :: 64 word, sample_shard 1 ''db0'')].
                     fst (sh_DeleteSeries failing_env sample_keys (snd y)) = None)
               \<and> fst (sh_DeleteSeries failing_env sample_keys (snd (2 :: 64 word, sample_shard 2 ''db0'')))
                   = Some (ErrIO ''delete'')"
    by (simp add: sample_db0_shards sample_shard_deletes)
  note ok = DeleteSeries_shards_before_index [OF sample_store_db0 run_ok, THEN conjunct1, rule_format, OF pre_ok,
      THEN conjunct1, THEN mp, OF all_ok]
  note ko = DeleteSeries_shards_before_index [OF sample_store_db0 run_ko, THEN conjunct1, rule_format, OF pre_ko,
      THEN conjunct2, rule_format, OF fails]
  show ?thesis
    using ok ko sample_store_db0
    by (simp add: sample_db0_shards sample_trace_empty)
qed

subsection \<open>Source expansion: sorted, deduplicated, independent of iteration orders\<close>

lemma set_update_subset: "set (AList.update k v al) \<subseteq> insert (k, v) (set al)"
  by (induction al) auto

lemma literalSet_update:
  assumes "literalSet env A st" "Regex m = None" "m \<in> A"
  shows "literalSet env A (AList.update (String env m) (MeasurementSource m) st)"
  using assms set_update_subset [of "String env m" "MeasurementSource m" st]
  unfolding literalSet_def by (auto simp: distinct_update)

lemma literalSet_addMatches:
  assumes "literalSet env A st" "otherOf src ` set ms \<subseteq> A"
  shows "literalSet env A (addMatches env src ms st)"
  using assms unfolding addMatches_def
proof (induction ms arbitrary: st)
  case Nil
  then show ?case by simp
next
  case (Cons m ms)
  have "literalSet env A (AList.update (String env (otherOf src m)) (MeasurementSource (otherOf src m)) st)"
    using Cons.prems by (intro literalSet_update) (simp_all add: otherOf_def)
  then show ?case using Cons by (simp add: otherOf_def Let_def)
qed

lemma literalSet_loop:
  assumes "literalSet env UNIV st" "expandSources_loop env idx st sources = Inr (Some st')"
  shows "literalSet env UNIV st'"
  using assms
proof (induction env idx st sources rule: expandSources_loop.induct)
  case (1 env idx st)
  then show ?case by simp
next
  case (2 env idx st src rest)
  show ?case
  proof (cases "Regex src")
    case None
    with 2 show ?thesis by (simp add: literalSet_update)
  next
    case (Some re)
    with 2 show ?thesis
      by (cases "mlookup idx (Database src)") (simp_all add: literalSet_addMatches)
  qed
qed simp_all

lemma lookup_names:
  assumes "\<forall>n\<in>set names. \<exists>m. map_of st n = Some (MeasurementSource m) \<and> Regex m = None \<and> String env m = n"
  shows "\<exists>ms. map (\<lambda>n. case map_of st n of Some v \<Rightarrow> v | None \<Rightarrow> NilSource) names = map MeasurementSource ms
              \<and> map (String env) ms = names \<and> (\<forall>m\<in>set ms. Regex m = None)"
  using assms
proof (induction names)
  case Nil
  then show ?case by simp
next
  case (Cons n names)
  then obtain m where m: "map_of st n = Some (MeasurementSource m)" "Regex m = None" "String env m = n"
    by auto
  from Cons obtain ms where ms:
    "map (\<lambda>n. case map_of st n of Some v \<Rightarrow> v | None \<Rightarrow> NilSource) names = map MeasurementSource ms"
    "map (String env) ms = names" "\<forall>m\<in>set ms. Regex m = None"
    by auto
  show ?case
    using m ms by (intro exI [of _ "m # ms"]) simp
qed

lemma literalSet_lookup:
  assumes "literalSet env A st" "n \<in> fst ` set st"
  shows "\<exists>m. map_of st n = Some (MeasurementSource m) \<and> Regex m = None \<and> String env m = n"
proof -
  from assms(2) obtain v where v: "(n, v) \<in> set st" by auto
  with assms(1) have "map_of st n = Some v" by (simp add: literalSet_def)
  moreover from assms(1) v obtain m where "v = MeasurementSource m" "Regex m = None" "n = String env m"
    by (auto simp: literalSet_def)
  ultimately show ?thesis by auto
qed

lemma expandSources_sorted:
  assumes perm: "\<forall>ks. mset (map_order env ks) = mset ks"
    and run: "expandSources env s sources = Inr out"
  shows "\<exists>ms. out = map MeasurementSource ms \<and> (\<forall>m\<in>set ms. Regex m = None)
            \<and> sorted (map (String env) ms) \<and> distinct (map (String env) ms)"
proof (cases "expandSources_loop env (databaseIndexes s) [] sources")
  case (Inl e)
  with run show ?thesis by (simp add: expandSources_def)
next
  case (Inr res)
  show ?thesis
  proof (cases res)
    case None
    with Inr run have "out = []" by (simp add: expandSources_def)
    then show ?thesis by (intro exI [of _ "[]"]) simp
  next
    case (Some st)
    let ?names = "sort (map_order env (map fst st))"
    have lit: "literalSet env UNIV st"
      using literalSet_loop [of env "[]"] Inr Some by (simp add: literalSet_def)
    have ms: "mset ?names = mset (map fst st)" using perm by simp
    then have set_names: "set ?names = fst ` set st"
      by (metis set_mset_mset set_map)
    have dist: "distinct ?names"
      using ms lit by (metis literalSet_def mset_eq_imp_distinct_iff)
    have "\<forall>n\<in>set ?names. \<exists>m. map_of st n = Some (MeasurementSource m) \<and> Regex m = None \<and> String env m = n"
      using literalSet_lookup [OF lit] set_names by blast
    from lookup_names [OF this] obtain ms where ms:
      "map (\<lambda>n. case map_of st n of Some v \<Rightarrow> v | None \<Rightarrow> NilSource) ?names = map MeasurementSource ms"
      "map (String env) ms = ?names" "\<forall>m\<in>set ms. Regex m = None"
      by blast
    have "out = map MeasurementSource ms"
      using run Inr Some ms(1) by (simp add: expandSources_def Let_def)
    moreover have "sorted (map (String env) ms)" unfolding ms(2) by simp
    moreover have "distinct (map (String env) ms)" unfolding ms(2) by (rule dist)
    ultimately show ?thesis using ms(3) by blast
  qed
qed


lemma set_update_distinct:
  "distinct (map fst al) \<Longrightarrow> set (AList.update k v al) = (set al - {k} \<times> UNIV) \<union> {(k, v)}"
  by (induction al) (auto simp: rev_image_eqI)

lemma set_update_literal:
  assumes "literalSet env A st" "Regex m = None" "m \<in> A" "inj_on (String env) A"
  shows "set (AList.update (String env m) (MeasurementSource m) st)
           = insert (String env m, MeasurementSource m) (set st)"
proof -
  have same: "v = MeasurementSource m" if "(String env m, v) \<in> set st" for v
  proof -
    from assms(1) that obtain m' where m': "v = MeasurementSource m'" "m' \<in> A"
      "String env m = String env m'"
      by (auto simp: literalSet_def)
    with assms(3,4) have "m' = m" by (auto dest: inj_onD)
    with m' show ?thesis by simp
  qed
  have "distinct (map fst st)" using assms(1) by (simp add: literalSet_def)
  from set_update_distinct [OF this] same show ?thesis by auto
qed

lemma addMatches_set:
  assumes "literalSet env A st" "inj_on (String env) A" "otherOf src ` set ms \<subseteq> A"
  shows "set (addMatches env src ms st) = set st \<union> pairsOf env (otherOf src ` set ms)"
  using assms(1,3)
proof (induction ms arbitrary: st)
  case Nil
  then show ?case by (simp add: addMatches_def pairsOf_def)
next
  case (Cons m ms)
  have r: "Regex (otherOf src m) = None" by (simp add: otherOf_def)
  let ?st = "AList.update (String env (otherOf src m)) (MeasurementSource (otherOf src m)) st"
  have step: "addMatches env src (m # ms) st = addMatches env src ms ?st"
    by (simp add: addMatches_def otherOf_def Let_def)
  have inA: "otherOf src m \<in> A" "otherOf src ` set ms \<subseteq> A" using Cons.prems(2) by simp_all
  have lit: "literalSet env A ?st" using Cons.prems(1) r inA(1) by (rule literalSet_update)
  show ?case
    unfolding step Cons.IH [OF lit inA(2)] set_update_literal [OF Cons.prems(1) r inA(1) assms(2)]
    by (auto simp: pairsOf_def)
qed

lemma expandSources_loop_set:
  assumes inj: "inj_on (String env) A"
    and "literalSet env A st"
    and "\<forall>x\<in>set sources. \<exists>m. x = MeasurementSource m"
    and "\<forall>x\<in>set sources. \<not> unknownDb idx x"
    and "(\<Union>x\<in>set sources. contrib env idx x) \<subseteq> A"
  shows "\<exists>st'. expandSources_loop env idx st sources = Inr (Some st') \<and> literalSet env A st'
           \<and> set st' = set st \<union> pairsOf env (\<Union>x\<in>set sources. contrib env idx x)"
  using assms(2-)
proof (induction sources arbitrary: st)
  case Nil
  then show ?case by (simp add: pairsOf_def)
next
  case (Cons x sources)
  then obtain src where x: "x = MeasurementSource src" by auto
  have rest: "\<forall>x\<in>set sources. \<exists>m. x = MeasurementSource m" "\<forall>x\<in>set sources. \<not> unknownDb idx x"
    "(\<Union>x\<in>set sources. contrib env idx x) \<subseteq> A"
    using Cons.prems by simp_all
  have cx: "contrib env idx x \<subseteq> A" using Cons.prems(4) by simp
  show ?case
  proof (cases "Regex src")
    case None
    let ?st = "AList.update (String env src) (MeasurementSource src) st"
    have inA: "src \<in> A" using cx x None by (simp add: contrib_def)
    have lit: "literalSet env A ?st" using Cons.prems(1) None inA by (rule literalSet_update)
    from Cons.IH [OF lit rest] obtain st' where st':
      "expandSources_loop env idx ?st sources = Inr (Some st')" "literalSet env A st'"
      "set st' = set ?st \<union> pairsOf env (\<Union>x\<in>set sources. contrib env idx x)"
      by blast
    have "set st' = set st \<union> pairsOf env (\<Union>x\<in>set (x # sources). contrib env idx x)"
      unfolding st'(3) set_update_literal [OF Cons.prems(1) None inA inj]
      using None x by (auto simp: pairsOf_def contrib_def)
    with st'(1,2) x None show ?thesis by simp
  next
    case (Some re)
    with Cons.prems(3) x obtain db where db: "mlookup idx (Database src) = Some db"
      by (auto simp: unknownDb_def)
    let ?st = "addMatches env src (MeasurementsByRegex env db re) st"
    have inA: "otherOf src ` set (MeasurementsByRegex env db re) \<subseteq> A"
      using cx x Some db by (simp add: contrib_def)
    have lit: "literalSet env A ?st" using Cons.prems(1) inA by (rule literalSet_addMatches)
    from Cons.IH [OF lit rest] obtain st' where st':
      "expandSources_loop env idx ?st sources = Inr (Some st')" "literalSet env A st'"
      "set st' = set ?st \<union> pairsOf env (\<Union>x\<in>set sources. contrib env idx x)"
      by blast
    have "set st' = set st \<union> pairsOf env (\<Union>x\<in>set (x # sources). contrib env idx x)"
      unfolding st'(3) addMatches_set [OF Cons.prems(1) inj inA]
      using Some x db by (auto simp: pairsOf_def contrib_def)
    with st'(1,2) x Some db show ?thesis by simp
  qed
qed

lemma expandSources_loop_unknown:
  assumes "\<forall>x\<in>set sources. \<exists>m. x = MeasurementSource m" "x \<in> set sources" "unknownDb idx x"
  shows "expandSources_loop env idx st sources = Inr None"
proof -
  from assms(2) obtain pre rest where sp: "sources = pre @ x # rest" by (auto dest: split_list)
  from assms(1,2,3) obtain src re where x: "x = MeasurementSource src" "Regex src = Some re"
    "mlookup idx (Database src) = None"
    by (auto simp: unknownDb_def split: Source.splits)
  have pre: "\<forall>y\<in>set pre. \<exists>m. y = MeasurementSource m" using assms(1) sp by simp
  show ?thesis unfolding sp x(1) using x(3) x(2) pre by (rule expandSources_loop_unknown_database)
qed


lemma contrib_cong:
  assumes "\<forall>db re. set (MeasurementsByRegex env' db re) = set (MeasurementsByRegex env db re)"
  shows "contrib env' idx x = contrib env idx x"
  using assms by (simp add: contrib_def split: Source.splits option.splits)

lemma sort_perm:
  assumes "\<forall>ks. mset (map_order env ks) = mset ks"
  shows "sort (map_order env ks) = sort ks"
  using assms by (metis sorted_list_of_multiset_mset)

lemma expandSources_order_independent:
  assumes perm: "\<forall>ks. mset (map_order env ks) = mset ks"
    and perm': "\<forall>ks. mset (map_order env' ks) = mset ks"
    and str: "String env' = String env"
    and mbr: "\<forall>db re. set (MeasurementsByRegex env' db re) = set (MeasurementsByRegex env db re)"
    and inj: "inj_on (String env) (\<Union>x\<in>set sources. contrib env (databaseIndexes s) x)"
    and srcs: "set sources' = set sources"
    and meas: "\<forall>x\<in>set sources. \<exists>m. x = MeasurementSource m"
  shows "expandSources env' s sources' = expandSources env s sources"
proof (cases "\<exists>x\<in>set sources. unknownDb (databaseIndexes s) x")
  case True
  then obtain x where x: "x \<in> set sources" "unknownDb (databaseIndexes s) x" by blast
  have meas': "\<forall>x\<in>set sources'. \<exists>m. x = MeasurementSource m" using meas srcs by simp
  have "expandSources_loop env (databaseIndexes s) [] sources = Inr None"
    using meas x by (rule expandSources_loop_unknown)
  moreover have "expandSources_loop env' (databaseIndexes s) [] sources' = Inr None"
    using meas' x srcs by (intro expandSources_loop_unknown [of sources' x]) simp_all
  ultimately show ?thesis by (simp add: expandSources_def)
next
  case False
  let ?idx = "databaseIndexes s"
  let ?A = "\<Union>x\<in>set sources. contrib env ?idx x"
  have A': "(\<Union>x\<in>set sources'. contrib env' ?idx x) = ?A"
    using contrib_cong [OF mbr] srcs by simp
  have inj': "inj_on (String env') ?A" using inj str by simp
  have empty: "literalSet env ?A []" "literalSet env' ?A []" by (simp_all add: literalSet_def)
  have k: "\<forall>x\<in>set sources. \<not> unknownDb ?idx x" using False by blast
  have meas': "\<forall>x\<in>set sources'. \<exists>m. x = MeasurementSource m"
    and k': "\<forall>x\<in>set sources'. \<not> unknownDb ?idx x"
    using meas k srcs by simp_all
  from expandSources_loop_set [OF inj empty(1) meas k] obtain st where st:
    "expandSources_loop env ?idx [] sources = Inr (Some st)" "literalSet env ?A st"
    "set st = pairsOf env (\<Union>x\<in>set sources. contrib env ?idx x)"
    by auto
  from expandSources_loop_set [OF inj' empty(2) meas' k'] A' obtain st' where st':
    "expandSources_loop env' ?idx [] sources' = Inr (Some st')" "literalSet env' ?A st'"
    "set st' = pairsOf env' (\<Union>x\<in>set sources'. contrib env' ?idx x)"
    by auto
  have sets: "set st' = set st"
    unfolding st(3) st'(3) srcs using contrib_cong [OF mbr] str by (simp add: pairsOf_def)
  have d: "distinct (map fst st)" "distinct (map fst st')"
    using st(2) st'(2) by (simp_all add: literalSet_def)
  have look: "map_of st' = map_of st"
    using d sets by (simp add: map_of_inject_set)
  have "set (map fst st') = set (map fst st)" using sets by simp
  then have "mset (map fst st') = mset (map fst st)"
    using d set_eq_iff_mset_eq_distinct [of "map fst st'" "map fst st"] by blast
  then have "sort (map fst st') = sort (map fst st)"
    by (metis sorted_list_of_multiset_mset)
  then have names: "sort (map_order env' (map fst st')) = sort (map_order env (map fst st))"
    using sort_perm [OF perm] sort_perm [OF perm'] by simp
  show ?thesis
    by (simp add: expandSources_def st(1) st'(1) Let_def names look)
qed

lemma expandSources_sample:
  "expandSources sample_env sample_store
     [MeasurementSource \<lparr>Database = ''db0'', RetentionPolicy = ''rp'', MeasurementName = [],
                          Regex = Some ''cpu.*''\<rparr>]
    = Inr [MeasurementSource \<lparr>Database = ''db0'', RetentionPolicy = ''rp'', MeasurementName = ''cpu'',
                               Regex = None\<rparr>,
           MeasurementSource \<lparr>Database = ''db0'', RetentionPolicy = ''rp'',
                               MeasurementName = ''cpu_load'', Regex = None\<rparr>]"
  by code_simp

text \<open>
  C3, as amended. Whatever order the run time ranges over a map in:
  (1) a list that \<^verbatim>\<open>expandSources\<close> returns is made of literal measurement
  references, strictly ascending in their canonical strings (sorted, no duplicate);
  (2) on sources that are all measurement references, whose contributed literal references
  have distinct canonical strings, the result depends only on the set of the sources and
  on the sets of measurements the regexes match: neither the order of the sources, nor the
  order in which the index lists the matches, nor the order of the range over the set
  changes it;
  (3) on the index holding \<^verbatim>\<open>cpu\<close>, \<^verbatim>\<open>cpu_load\<close> and \<^verbatim>\<open>mem\<close>, the single
  regex source \<^verbatim>\<open>cpu.*\<close> expands to \<^verbatim>\<open>cpu\<close>, \<^verbatim>\<open>cpu_load\<close> in this order.
\<close>

theorem expandSources_sorted_deterministic:
  "((\<forall>ks. mset (map_order env ks) = mset ks) \<and> expandSources env s sources = Inr out
      \<longrightarrow> (\<exists>ms. out = map MeasurementSource ms \<and> (\<forall>m\<in>set ms. Regex m = None)
                \<and> sorted (map (String env) ms) \<and> distinct (map (String env) ms)))
   \<and> ((\<forall>ks. mset (map_order env ks) = mset ks) \<and> (\<forall>ks. mset (map_order env' ks) = mset ks)
       \<and> String env' = String env
       \<and> (\<forall>db re. set (MeasurementsByRegex env' db re) = set (MeasurementsByRegex env db re))
       \<and> inj_on (String env) (\<Union>x\<in>set sources. contrib env (databaseIndexes s) x)
       \<and> set sources' = set sources
       \<and> (\<forall>x\<in>set sources. \<exists>m. x = MeasurementSource m)
      \<longrightarrow> expandSources env' s sources' = expandSources env s sources)
   \<and> expandSources sample_env sample_store
        [MeasurementSource \<lparr>Database = ''db0'', RetentionPolicy = ''rp'', MeasurementName = [],
                             Regex = Some ''cpu.*''\<rparr>]
      = Inr [MeasurementSource \<lparr>Database = ''db0'', RetentionPolicy = ''rp'',
                                  MeasurementName = ''cpu'', Regex = None\<rparr>,
             MeasurementSource \<lparr>Database = ''db0'', RetentionPolicy = ''rp'',
                                  MeasurementName = ''cpu_load'', Regex = None\<rparr>]"
  using expandSources_sorted [of env s sources out]
    expandSources_order_independent [where env = env and env' = env' and sources' = sources'
      and sources = sources and s = s]
    expandSources_sample
  by blast

text \<open>
  As stated for every input the claim fails: the same two sources in the two orders give
  the unsupported-source error and the empty list, the loop returning at whichever of the
  nil source and the regex on an unknown database comes first.
\<close>

theorem expandSources_order_counterexample:
  "set [NilSource,
        MeasurementSource \<lparr>Database = ''nodb'', RetentionPolicy = ''rp'', MeasurementName = [],
                            Regex = Some ''cpu.*''\<rparr>]
     = set [MeasurementSource \<lparr>Database = ''nodb'', RetentionPolicy = ''rp'', MeasurementName = [],
                                Regex = Some ''cpu.*''\<rparr>,
            NilSource]
   \<and> expandSources sample_env sample_store
        [NilSource,
         MeasurementSource \<lparr>Database = ''nodb'', RetentionPolicy = ''rp'', MeasurementName = [],
                             Regex = Some ''cpu.*''\<rparr>]
       = Inl (ErrMsg ''expandSources: unsupported source type: <nil>'')
   \<and> expandSources sample_env sample_store
        [MeasurementSource \<lparr>Database = ''nodb'', RetentionPolicy = ''rp'', MeasurementName = [],
                             Regex = Some ''cpu.*''\<rparr>,
         NilSource]
       = Inr []"
  by (simp add: expandSources_def sample_store_def mlookup_def insert_commute)


lemma contrib_sample:
  "(\<Union>x\<in>set [MeasurementSource cpu_literal, MeasurementSource cpu_pattern].
       contrib sample_env (databaseIndexes sample_store) x)
     = {cpu_literal, cpu_literal\<lparr>MeasurementName := ''cpu_load''\<rparr>}"
  by code_simp

lemma sample_env_fields:
  "map_order sample_env = rev" "map_order reordered_env = (\<lambda>ks. ks)"
  "String reordered_env = String sample_env" "String sample_env = MeasurementName"
  "MeasurementsByRegex reordered_env db re = rev (MeasurementsByRegex sample_env db re)"
  by (simp_all add: sample_env_def reordered_env_def)

theorem expandSources_sorted_deterministic_witness:
  "expandSources reordered_env sample_store [MeasurementSource cpu_pattern, MeasurementSource cpu_literal]
     = expandSources sample_env sample_store [MeasurementSource cpu_literal, MeasurementSource cpu_pattern]
   \<and> (\<exists>ms. [MeasurementSource cpu_literal,
              MeasurementSource (cpu_literal\<lparr>MeasurementName := ''cpu_load''\<rparr>)]
               = map MeasurementSource ms
            \<and> sorted (map (String sample_env) ms) \<and> distinct (map (String sample_env) ms))"
proof -
  have inj: "inj_on (String sample_env)
               (\<Union>x\<in>set [MeasurementSource cpu_literal, MeasurementSource cpu_pattern].
                   contrib sample_env (databaseIndexes sample_store) x)"
    unfolding contrib_sample by (simp add: sample_env_fields cpu_literal_def)
  have sets: "set [MeasurementSource cpu_pattern, MeasurementSource cpu_literal]
                = set [MeasurementSource cpu_literal, MeasurementSource cpu_pattern]"
    by auto
  have run: "expandSources sample_env sample_store [MeasurementSource cpu_pattern]
               = Inr [MeasurementSource cpu_literal,
                      MeasurementSource (cpu_literal\<lparr>MeasurementName := ''cpu_load''\<rparr>)]"
    using expandSources_sample by (simp add: cpu_pattern_def cpu_literal_def)
  have perm: "\<forall>ks. mset (map_order sample_env ks) = mset ks"
    by (simp add: sample_env_fields)
  have "expandSources reordered_env sample_store [MeasurementSource cpu_pattern, MeasurementSource cpu_literal]
     = expandSources sample_env sample_store [MeasurementSource cpu_literal, MeasurementSource cpu_pattern]"
    using inj sets
      expandSources_sorted_deterministic [where env = sample_env and env' = reordered_env
        and s = sample_store
        and sources = "[MeasurementSource cpu_literal, MeasurementSource cpu_pattern]"
        and sources' = "[MeasurementSource cpu_pattern, MeasurementSource cpu_literal]"]
    by (simp add: sample_env_fields)
  moreover have "\<exists>ms. [MeasurementSource cpu_literal,
              MeasurementSource (cpu_literal\<lparr>MeasurementName := ''cpu_load''\<rparr>)]
               = map MeasurementSource ms
            \<and> sorted (map (String sample_env) ms) \<and> distinct (map (String sample_env) ms)"
  proof -
    have h: "(\<forall>ks. mset (map_order sample_env ks) = mset ks)
             \<and> expandSources sample_env sample_store [MeasurementSource cpu_pattern]
                 = Inr [MeasurementSource cpu_literal,
                        MeasurementSource (cpu_literal\<lparr>MeasurementName := ''cpu_load''\<rparr>)]"
      using perm run by (intro conjI)
    from expandSources_sorted_deterministic [where env = sample_env and s = sample_store
        and sources = "[MeasurementSource cpu_pattern]"
        and out = "[MeasurementSource cpu_literal,
                    MeasurementSource (cpu_literal\<lparr>MeasurementName := ''cpu_load''\<rparr>)]",
        THEN conjunct1, THEN mp, OF h]
    obtain ms where "[MeasurementSource cpu_literal,
              MeasurementSource (cpu_literal\<lparr>MeasurementName := ''cpu_load''\<rparr>)]
               = map MeasurementSource ms"
      "sorted (map (String sample_env) ms)" "distinct (map (String sample_env) ms)"
      by (elim exE conjE)
    then show ?thesis by (intro exI [of _ ms] conjI)
  qed
  ultimately show ?thesis by simp
qed

end
